theory Spec2Isabelle
  imports Main "HOL-Library.Multiset"
begin

unbundle bit_operations_syntax

section \<open>Text\<close>

text \<open>
  The extension (\<open>dist/extension.js\<close>, compiled from the TypeScript source that follows the
  webview script in \<open>media/packagerView.js\<close>) keeps a list of workspace files and folders
  and writes them into one markdown document. Both copies of \<open>PackagerViewProvider\<close> have
  the same statements; the model below follows them line by line.

  JavaScript strings are modelled as \<^typ>\<open>string\<close>, holding the UTF-8 bytes of the text (the
  encoding the document is written in). Every string operation the provider uses
  (concatenation, looking for \<open>.\<close> and \<open>/\<close>) only inspects ASCII characters, so it reads the
  same on the bytes as on the UTF-16 units.
\<close>

definition nl :: char where
  "nl = CHR 0x0A"

definition backtick :: char where
  "backtick = CHR 0x60"

text \<open>\<open>Number.prototype.toString()\<close> of an integer, and \<open>String.prototype.padStart\<close>.\<close>

definition digit :: "nat \<Rightarrow> char" where
  "digit n = ''0123456789'' ! n"

fun nat_toString :: "nat \<Rightarrow> string" where
  "nat_toString n =
     (if n < 10 then [digit n] else nat_toString (n div 10) @ [digit (n mod 10)])"

definition int_toString :: "int \<Rightarrow> string" where
  "int_toString i = (if i < 0 then CHR ''-'' # nat_toString (nat (- i)) else nat_toString (nat i))"

definition padStart :: "nat \<Rightarrow> char \<Rightarrow> string \<Rightarrow> string" where
  "padStart targetLength c s = replicate (targetLength - length s) c @ s"

section \<open>The \<open>path\<close> module\<close>

text \<open>
  \<open>path.extname\<close>, \<open>path.basename\<close> and \<open>path.join\<close> are Node's, in their POSIX form. They are
  not part of the repository; they are written here by what Node computes: the last portion
  of a path ignores trailing separators; the extension runs from the last \<open>.\<close> of the last
  portion to its end, and is empty when there is no \<open>.\<close>, when the only \<open>.\<close> is the first
  character, or when the portion is \<open>..\<close>; \<open>join\<close> puts a \<open>/\<close> between its non-empty arguments
  and normalises the result (empty and \<open>.\<close> segments dropped, \<open>..\<close> resolved).
\<close>

definition last_portion :: "string \<Rightarrow> string" where
  "last_portion p =
     rev (takeWhile (\<lambda>c. c \<noteq> CHR ''/'') (dropWhile (\<lambda>c. c = CHR ''/'') (rev p)))"

definition basename :: "string \<Rightarrow> string" where
  "basename p = last_portion p"

definition extname :: "string \<Rightarrow> string" where
  "extname p =
     (let portion = last_portion p;
          after = rev (takeWhile (\<lambda>c. c \<noteq> CHR ''.'') (rev portion))
      in if CHR ''.'' \<notin> set portion \<or> Suc (length after) = length portion \<or> portion = ''..''
         then [] else CHR ''.'' # after)"

fun split_sep :: "string \<Rightarrow> string list" where
  "split_sep [] = [[]]"
| "split_sep (c # cs) =
     (if c = CHR ''/'' then [] # split_sep cs
      else (case split_sep cs of [] \<Rightarrow> [[c]] | s # ss \<Rightarrow> (c # s) # ss))"

fun join_sep :: "string list \<Rightarrow> string" where
  "join_sep [] = []"
| "join_sep [s] = s"
| "join_sep (s # t # ss) = s @ CHR ''/'' # join_sep (t # ss)"

fun normalizeString :: "bool \<Rightarrow> string list \<Rightarrow> string list \<Rightarrow> string list" where
  "normalizeString allowAboveRoot res [] = res"
| "normalizeString allowAboveRoot res (seg # segs) =
     (if seg = [] \<or> seg = ''.'' then normalizeString allowAboveRoot res segs
      else if seg = ''..'' then
        (if res \<noteq> [] \<and> last res \<noteq> ''..''
           then normalizeString allowAboveRoot (butlast res) segs
         else if allowAboveRoot then normalizeString allowAboveRoot (res @ [''..'']) segs
         else normalizeString allowAboveRoot res segs)
      else normalizeString allowAboveRoot (res @ [seg]) segs)"

definition path_normalize :: "string \<Rightarrow> string" where
  "path_normalize p =
     (if p = [] then ''.''
      else
        let isAbsolute = (hd p = CHR ''/'');
            trailingSeparator = (last p = CHR ''/'');
            q = join_sep (normalizeString (\<not> isAbsolute) [] (split_sep p))
        in if q = [] then (if isAbsolute then ''/'' else if trailingSeparator then ''./'' else ''.'')
           else (if isAbsolute then ''/'' else []) @ q @ (if trailingSeparator then ''/'' else []))"

definition path_join :: "string \<Rightarrow> string \<Rightarrow> string" where
  "path_join a b =
     (let joined = (if a = [] then b else if b = [] then a else a @ CHR ''/'' # b)
      in if joined = [] then ''.'' else path_normalize joined)"

section \<open>Timestamps\<close>

text \<open>The fields of a \<open>Date\<close> that \<open>formatTimestamp\<close> reads, named by their getters.\<close>

record date =
  getFullYear :: int
  getMonth :: nat
  getDate :: nat
  getHours :: nat
  getMinutes :: nat
  getSeconds :: nat

definition pad :: "nat \<Rightarrow> string" where
  "pad v = padStart 2 (CHR ''0'') (nat_toString v)"

definition formatTimestamp :: "date \<Rightarrow> string" where
  "formatTimestamp d =
     int_toString (getFullYear d) @ pad (getMonth d + 1) @ pad (getDate d) @ ''-'' @
     pad (getHours d) @ pad (getMinutes d) @ pad (getSeconds d)"

section \<open>The file system\<close>

text \<open>
  What \<open>fs-extra\<close> finds at a path. A directory carries its \<open>readdir\<close> listing in the order
  \<open>readdir\<close> returns it, each name with what \<open>stat\<close> finds there; the other constructors are
  the ways the calls of \<open>addDirectoryToMarkdown\<close> can end: a regular file with the text
  \<open>readFile(_, 'utf-8')\<close> resolves to, a regular file whose \<open>readFile\<close> rejects, a directory
  whose \<open>readdir\<close> rejects, something that is neither \<open>isFile()\<close> nor \<open>isDirectory()\<close>, and a
  listed name whose \<open>stat\<close> rejects (a dangling link).
\<close>

datatype fsnode =
    File string
  | Unreadable
  | Directory "(string \<times> fsnode) list"
  | Unlistable
  | Other
  | Dangling

text \<open>
  The disk is the node at the root of the file system, a directory. A path is looked up
  segment by segment through the listings (empty segments and \<open>.\<close> skipped, \<open>..\<close> resolved);
  a listing is searched from its front. \<open>None\<close> is the lookup that fails: a name that is not
  listed, or a step through something that is not a directory with a listing.
\<close>

type_synonym disk = fsnode

definition segments :: "string \<Rightarrow> string list" where
  "segments p = normalizeString False [] (split_sep p)"

fun lookup :: "fsnode \<Rightarrow> string list \<Rightarrow> fsnode option" where
  "lookup node [] = Some node"
| "lookup (Directory items) (n # ns) =
     (case map_of items n of None \<Rightarrow> None | Some child \<Rightarrow> lookup child ns)"
| "lookup _ (n # ns) = None"

definition disk_at :: "disk \<Rightarrow> string \<Rightarrow> fsnode option" where
  "disk_at d p = lookup d (segments p)"

definition readFile :: "disk \<Rightarrow> string \<Rightarrow> string option" where
  "readFile d p = (case disk_at d p of Some (File content) \<Rightarrow> Some content | _ \<Rightarrow> None)"

text \<open>
  Changing the disk. \<open>put\<close> lists a name in a directory: in the place of the entry of that
  name if there is one, at the end otherwise. \<open>store\<close> puts a node at a path whose parent is a
  directory with a listing; \<open>mkdirs\<close> makes the directories of a path that are missing, each
  listed in its parent.
\<close>

fun put :: "(string \<times> fsnode) list \<Rightarrow> string \<Rightarrow> fsnode \<Rightarrow> (string \<times> fsnode) list" where
  "put [] n x = [(n, x)]"
| "put ((m, y) # items) n x = (if m = n then (n, x) # items else (m, y) # put items n x)"

fun store :: "fsnode \<Rightarrow> string list \<Rightarrow> fsnode \<Rightarrow> fsnode option" where
  "store (Directory items) [n] x = Some (Directory (put items n x))"
| "store (Directory items) (n # m # ns) x =
     (case map_of items n of
        None \<Rightarrow> None
      | Some child \<Rightarrow>
          (case store child (m # ns) x of
             None \<Rightarrow> None
           | Some child' \<Rightarrow> Some (Directory (put items n child'))))"
| "store _ _ x = None"

fun mkdirs :: "fsnode \<Rightarrow> string list \<Rightarrow> fsnode option" where
  "mkdirs (Directory items) [] = Some (Directory items)"
| "mkdirs (Directory items) (n # ns) =
     (case mkdirs (case map_of items n of None \<Rightarrow> Directory [] | Some child \<Rightarrow> child) ns of
        None \<Rightarrow> None
      | Some child' \<Rightarrow> Some (Directory (put items n child')))"
| "mkdirs _ _ = None"

text \<open>
  \<open>ensureDir\<close> and \<open>writeFile\<close> of \<open>fs-extra\<close>: a directory that exists is left as it is, a
  missing one is created empty together with the missing directories above it, and a path
  that holds something else rejects; writing replaces a file or creates it in its directory
  and rejects on a directory. \<open>refused\<close> are the paths the system will not create or write
  (permissions, a read-only volume).
\<close>

definition ensureDir :: "(string \<Rightarrow> bool) \<Rightarrow> disk \<Rightarrow> string \<Rightarrow> disk option" where
  "ensureDir refused d p =
     (case disk_at d p of
        Some (Directory _) \<Rightarrow> Some d
      | Some Unlistable \<Rightarrow> Some d
      | Some _ \<Rightarrow> None
      | None \<Rightarrow> if refused p then None else mkdirs d (segments p))"

definition writeFile :: "(string \<Rightarrow> bool) \<Rightarrow> disk \<Rightarrow> string \<Rightarrow> string \<Rightarrow> disk option" where
  "writeFile refused d p content =
     (case disk_at d p of
        Some (Directory _) \<Rightarrow> None
      | Some Unlistable \<Rightarrow> None
      | _ \<Rightarrow> if refused p then None else store d (segments p) (File content))"

section \<open>Serialisation\<close>

text \<open>
  The two template literals that both \<open>createArchive\<close> and \<open>addDirectoryToMarkdown\<close> append
  for a file. The heading's label is the two characters U+6587 U+4EF6 of the source.
\<close>

definition label :: string where
  "label = [CHR 0xE6, CHR 0x96, CHR 0x87, CHR 0xE4, CHR 0xBB, CHR 0xB6]"

definition heading :: "string \<Rightarrow> string" where
  "heading relativePath = ''## '' @ label @ '': '' @ [backtick] @ relativePath @ [backtick] @ [nl, nl]"

definition fence :: "string \<Rightarrow> string \<Rightarrow> string" where
  "fence ext content =
     replicate 3 backtick @ ext @ [nl] @ content @ [nl] @ replicate 3 backtick @ [nl, nl] @
     ''---'' @ [nl, nl]"

definition fileSection :: "string \<Rightarrow> string \<Rightarrow> string \<Rightarrow> string" where
  "fileSection relativePath ext content = heading relativePath @ fence ext content"

text \<open>\<open>path.extname(name).slice(1) || 'txt'\<close>\<close>

definition ext_of :: "string \<Rightarrow> string" where
  "ext_of name = (let e = drop 1 (extname name) in if e = [] then ''txt'' else e)"

text \<open>
  \<open>addDirectoryToMarkdown(dirPath, relativePath)\<close>. The first argument is what the disk holds
  at \<open>dirPath\<close>; \<open>addItems\<close> is the \<open>for\<close> loop over \<open>items\<close>, with \<open>content\<close> as its
  accumulator. \<open>None\<close> is a rejected promise.
\<close>

fun addDirectoryToMarkdown :: "fsnode \<Rightarrow> string \<Rightarrow> string option"
  and addItems :: "(string \<times> fsnode) list \<Rightarrow> string \<Rightarrow> string \<Rightarrow> string option" where
  "addDirectoryToMarkdown (Directory items) relativePath = addItems items relativePath []"
| "addDirectoryToMarkdown _ relativePath = None"
| "addItems [] relativePath content = Some content"
| "addItems ((item, node) # rest) relativePath content =
     (let itemRelativePath = path_join relativePath item in
      case node of
        Dangling \<Rightarrow> None
      | Directory _ \<Rightarrow>
          (case addDirectoryToMarkdown node itemRelativePath of
             None \<Rightarrow> None
           | Some sub \<Rightarrow> addItems rest relativePath (content @ sub))
      | Unlistable \<Rightarrow> None
      | File fileContent \<Rightarrow>
          addItems rest relativePath
            (content @ fileSection itemRelativePath (ext_of item) fileContent)
      | Unreadable \<Rightarrow> None
      | Other \<Rightarrow> addItems rest relativePath content)"

section \<open>Entries and the registry\<close>

datatype EntryType = type_file | type_directory

text \<open>A \<open>vscode.Uri\<close>, by the two things the provider reads from it.\<close>

record uri =
  toString :: string
  fsPath :: string

record entry =
  uri :: uri
  key :: string
  relativePath :: string
  type :: EntryType

text \<open>
  \<open>this.entries\<close> is a JavaScript \<open>Map\<close>, which iterates in insertion order: a list of
  key and value. \<open>set\<close> on a key that is present replaces the value where it stands; on a new
  key it appends. \<open>delete\<close> reports whether the key was there.
\<close>

type_synonym registry = "(string \<times> entry) list"

definition map_has :: "registry \<Rightarrow> string \<Rightarrow> bool" where
  "map_has m k = (k \<in> set (map fst m))"

fun map_set :: "registry \<Rightarrow> string \<Rightarrow> entry \<Rightarrow> registry" where
  "map_set [] k v = [(k, v)]"
| "map_set ((k', v') # m) k v = (if k' = k then (k, v) # m else (k', v') # map_set m k v)"

definition map_delete :: "registry \<Rightarrow> string \<Rightarrow> bool \<times> registry" where
  "map_delete m k = (map_has m k, filter (\<lambda>p. fst p \<noteq> k) m)"

definition map_values :: "registry \<Rightarrow> entry list" where
  "map_values m = map snd m"

section \<open>The provider\<close>

text \<open>
  What the provider shows: messages posted to the webview, the notifications of
  \<open>vscode.window\<close>, the progress notification and the entries of \<open>logError\<close> (the detail of
  the error is left out).
\<close>

datatype shown =
    PostMessage "(string \<times> string \<times> EntryType) list" "string option"
  | InformationMessage string "string list"
  | WarningMessage string
  | ErrorMessage string
  | LogError string
  | WithProgress string string

text \<open>
  The state of a \<open>PackagerViewProvider\<close>: the registry, whether \<open>this.view\<close> is set, and
  everything shown so far, oldest first.
\<close>

record provider =
  entries :: registry
  view :: bool
  log :: "shown list"

definition constructor :: provider where
  "constructor = \<lparr>entries = [], view = False, log = []\<rparr>"

definition emit :: "shown \<Rightarrow> provider \<Rightarrow> provider" where
  "emit x s = s\<lparr>log := log s @ [x]\<rparr>"

text \<open>The array \<open>notifyEntries\<close> posts: the spec's \<open>snapshot()\<close>.\<close>

definition snapshot :: "provider \<Rightarrow> (string \<times> string \<times> EntryType) list" where
  "snapshot s = map (\<lambda>e. (key e, relativePath e, type e)) (map_values (entries s))"

definition notifyEntries :: "string option \<Rightarrow> provider \<Rightarrow> provider" where
  "notifyEntries status s = (if \<not> view s then s else emit (PostMessage (snapshot s) status) s)"

definition resolveWebviewView :: "provider \<Rightarrow> provider" where
  "resolveWebviewView s = notifyEntries None (s\<lparr>view := True\<rparr>)"

definition refresh :: "provider \<Rightarrow> provider" where
  "refresh s = notifyEntries None s"

definition dispose :: "provider \<Rightarrow> provider" where
  "dispose s = s\<lparr>view := False, entries := []\<rparr>"

definition clearAll :: "provider \<Rightarrow> provider" where
  "clearAll s =
     (if length (entries s) = 0
      then emit (InformationMessage ''Zip Packager list is already empty.'' []) s
      else notifyEntries None (s\<lparr>entries := []\<rparr>))"

definition removeEntry :: "string \<Rightarrow> provider \<Rightarrow> provider" where
  "removeEntry k s =
     (case map_delete (entries s) k of
        (False, _) \<Rightarrow> s
      | (True, m) \<Rightarrow> notifyEntries None (s\<lparr>entries := m\<rparr>))"

section \<open>Adding\<close>

text \<open>
  What the editor answers while an operation runs: \<open>Uri.parse\<close> (\<open>None\<close> when it throws),
  \<open>workspace.getWorkspaceFolder\<close> (whether there is one), \<open>workspace.fs.stat\<close> (the \<open>type\<close>
  bits of the \<open>FileStat\<close>, \<open>None\<close> when it rejects), \<open>workspace.asRelativePath\<close>, the paths
  of \<open>workspace.workspaceFolders\<close>, the clock (\<open>new Date()\<close> and its
  \<open>toLocaleString('zh-CN')\<close>) and the paths that cannot be written.
\<close>

record host =
  parse :: "string \<Rightarrow> uri option"
  getWorkspaceFolder :: "uri \<Rightarrow> bool"
  stat :: "uri \<Rightarrow> nat option"
  asRelativePath :: "uri \<Rightarrow> string"
  workspaceFolders :: "string list"
  now :: date
  toLocaleString :: string
  refused :: "string \<Rightarrow> bool"

text \<open>\<open>vscode.FileType\<close>\<close>

definition FileType_File :: nat where
  "FileType_File = 1"

definition FileType_Directory :: nat where
  "FileType_Directory = 2"

text \<open>The payload of an \<open>add\<close> message (\<open>rawUris: unknown\<close>) and its elements.\<close>

datatype raw = RawString string | RawOther

datatype rawUris = UriArray "raw list" | UriString string | UriOther

record adding =
  seen :: "string set"
  resolved :: "entry list"
  outsideWorkspace :: bool
  unsupported :: bool

text \<open>
  One round of the first \<open>for\<close> loop of \<open>handleAdd\<close>; \<open>m\<close> is \<open>this.entries\<close>, which the loop
  only reads. A \<open>continue\<close> returns the accumulator; the \<open>catch\<close> logs and shows an error.
\<close>

definition addOne :: "host \<Rightarrow> registry \<Rightarrow> raw \<Rightarrow> adding \<times> provider \<Rightarrow> adding \<times> provider" where
  "addOne h m r ap =
     (let a = fst ap; s = snd ap;
          failed = (a, emit (ErrorMessage
                      ''Unable to add one or more items. See Zip Packager output for details.'')
                      (emit (LogError ''Failed to add item'') s))
      in case r of
        RawOther \<Rightarrow> ap
      | RawString str \<Rightarrow>
          if str = [] then ap
          else
            (case parse h str of
               None \<Rightarrow> failed
             | Some u \<Rightarrow>
                 if \<not> getWorkspaceFolder h u then (a\<lparr>outsideWorkspace := True\<rparr>, s)
                 else
                   (case stat h u of
                      None \<Rightarrow> failed
                    | Some t \<Rightarrow>
                        if t AND FileType_File = 0 \<and> t AND FileType_Directory = 0
                        then (a\<lparr>unsupported := True\<rparr>, s)
                        else
                          let ty = (if t AND FileType_File \<noteq> 0 then type_file else type_directory);
                              rel = asRelativePath h u;
                              k = toString u
                          in if map_has m k \<or> k \<in> seen a then ap
                             else (a\<lparr>seen := insert k (seen a),
                                     resolved := resolved a @
                                       [\<lparr>uri = u, key = k, relativePath = rel, type = ty\<rparr>]\<rparr>, s))))"

fun addLoop :: "host \<Rightarrow> registry \<Rightarrow> raw list \<Rightarrow> adding \<times> provider \<Rightarrow> adding \<times> provider" where
  "addLoop h m [] ap = ap"
| "addLoop h m (r # rs) ap = addLoop h m rs (addOne h m r ap)"

fun setAll :: "registry \<Rightarrow> entry list \<Rightarrow> registry" where
  "setAll m [] = m"
| "setAll m (e # es) = setAll (map_set m (key e) e) es"

definition incoming :: "rawUris \<Rightarrow> raw list" where
  "incoming rawUris =
     (case rawUris of UriArray rs \<Rightarrow> rs | UriString str \<Rightarrow> [RawString str] | UriOther \<Rightarrow> [])"

definition nothing_added :: adding where
  "nothing_added = \<lparr>seen = {}, resolved = [], outsideWorkspace = False, unsupported = False\<rparr>"

definition handleAdd :: "host \<Rightarrow> rawUris \<Rightarrow> provider \<Rightarrow> provider" where
  "handleAdd h rawUris s =
     (if length (incoming rawUris) = 0 then s
      else
        let (a, s1) = addLoop h (entries s) (incoming rawUris) (nothing_added, s);
            s2 = s1\<lparr>entries := setAll (entries s1) (resolved a)\<rparr>;
            s3 = (if outsideWorkspace a
                  then emit (WarningMessage ''Only workspace files or folders can be added.'') s2
                  else s2);
            s4 = (if unsupported a
                  then emit (WarningMessage ''Only files and folders are supported.'') s3
                  else s3)
        in if length (resolved a) > 0 then notifyEntries (Some ''Items added.'') s4 else s4)"

section \<open>Packing\<close>

text \<open>
  The first template literal of \<open>createArchive\<close>: a title (U+6587 U+4EF6 U+96C6 U+5408), the
  line of the generation time (U+751F U+6210 U+65F6 U+95F4) and a rule.
\<close>

definition title :: string where
  "title = ''# '' @ label @ [CHR 0xE9, CHR 0x9B, CHR 0x86, CHR 0xE5, CHR 0x90, CHR 0x88]"

definition generated :: string where
  "generated = [CHR 0xE7, CHR 0x94, CHR 0x9F, CHR 0xE6, CHR 0x88, CHR 0x90,
                CHR 0xE6, CHR 0x97, CHR 0xB6, CHR 0xE9, CHR 0x97, CHR 0xB4] @ '': ''"

definition header :: "host \<Rightarrow> string" where
  "header h = title @ [nl, nl] @ generated @ toLocaleString h @ [nl, nl] @ ''---'' @ [nl, nl]"

text \<open>The \<open>for\<close> loop of \<open>createArchive\<close>, with \<open>mdContent\<close> as its accumulator.\<close>

fun addEntries :: "disk \<Rightarrow> entry list \<Rightarrow> string \<Rightarrow> string option" where
  "addEntries d [] mdContent = Some mdContent"
| "addEntries d (e # es) mdContent =
     (let p = fsPath (uri e) in
      if type e = type_directory then
        (case disk_at d p of
           None \<Rightarrow> None
         | Some node \<Rightarrow>
             (case addDirectoryToMarkdown node (relativePath e) of
                None \<Rightarrow> None
              | Some dirContent \<Rightarrow> addEntries d es (mdContent @ dirContent)))
      else
        (case readFile d p of
           None \<Rightarrow> None
         | Some content \<Rightarrow>
             addEntries d es
               (mdContent @ fileSection (relativePath e) (ext_of (relativePath e)) content)))"

text \<open>
  \<open>createArchive(folder, entries)\<close>, with \<open>rootPath\<close> for \<open>folder.uri.fsPath\<close>. The result is the
  disk afterwards and the path returned, \<open>None\<close> when a call rejected. A \<open>writeFile\<close> that
  rejects is taken to leave the disk as it was.
\<close>

definition createArchive :: "host \<Rightarrow> disk \<Rightarrow> string \<Rightarrow> entry list \<Rightarrow> disk \<times> string option" where
  "createArchive h d rootPath es =
     (let targetDir = path_join rootPath ''search'' in
      case ensureDir (refused h) d targetDir of
        None \<Rightarrow> (d, None)
      | Some d1 \<Rightarrow>
          let timestamp = formatTimestamp (now h);
              mdPath = path_join targetDir (''bundle-'' @ timestamp @ ''.md'')
          in (case addEntries d1 es (header h) of
                None \<Rightarrow> (d1, None)
              | Some mdContent \<Rightarrow>
                  (case writeFile (refused h) d1 mdPath mdContent of
                     None \<Rightarrow> (d1, None)
                   | Some d2 \<Rightarrow> (d2, Some mdPath))))"

text \<open>
  The ways \<open>packEntries\<close> ends, by the names of the spec: the three early returns, the
  \<open>catch\<close> around \<open>createArchive\<close>, and the path of the file written.
\<close>

datatype pack_result = EmptyList | NoRoot | NothingToPack | PackIOError | Packed string

text \<open>The validation loop of \<open>packEntries\<close> and the loop that deletes what is missing.\<close>

fun validate :: "host \<Rightarrow> entry list \<Rightarrow> entry list \<times> entry list \<Rightarrow> entry list \<times> entry list" where
  "validate h [] em = em"
| "validate h (e # es) em =
     (case stat h (uri e) of
        Some _ \<Rightarrow> validate h es (fst em @ [e], snd em)
      | None \<Rightarrow> validate h es (fst em, snd em @ [e]))"

fun deleteAll :: "registry \<Rightarrow> entry list \<Rightarrow> registry" where
  "deleteAll m [] = m"
| "deleteAll m (lost # rest) = deleteAll (snd (map_delete m (key lost))) rest"

definition packEntries :: "host \<Rightarrow> disk \<Rightarrow> provider \<Rightarrow> pack_result \<times> provider \<times> disk" where
  "packEntries h d s =
     (if length (entries s) = 0
      then (EmptyList, emit (InformationMessage ''Add files or folders before packaging.'' []) s, d)
      else
        case workspaceFolders h of
          [] \<Rightarrow> (NoRoot, emit (ErrorMessage ''Open a workspace folder to use Zip Packager.'') s, d)
        | workspaceFolder # _ \<Rightarrow>
            let (existing, missing) = validate h (map_values (entries s)) ([], []);
                s1 = s\<lparr>entries := deleteAll (entries s) missing\<rparr>;
                s2 = (if length missing > 0
                      then emit (WarningMessage (''Skipped '' @ nat_toString (length missing) @
                                   '' missing item(s).'')) (notifyEntries None s1)
                      else s1)
            in if length existing = 0
               then (NothingToPack,
                     emit (ErrorMessage ''No valid items remain for packaging.'')
                       (notifyEntries None s2), d)
               else
                 let s3 = emit (WithProgress ''Creating markdown file...'' ''Preparing entries'') s2
                 in (case createArchive h d workspaceFolder existing of
                       (d', Some outputPath) \<Rightarrow>
                         (Packed outputPath,
                          emit (InformationMessage (''Created '' @ basename outputPath @ ''.'')
                                  [''Open File''])
                            (notifyEntries None s3), d')
                     | (d', None) \<Rightarrow>
                         (PackIOError,
                          emit (ErrorMessage
                            ''Failed to create markdown file. Check Zip Packager output for details.'')
                            (emit (LogError ''Packaging failed'') s3), d')))"

section \<open>The states a provider can be in\<close>

text \<open>
  The provider starts from its constructor. The editor resolves the view, runs the commands
  \<open>zipPackager.refresh\<close>, \<open>zipPackager.clearAll\<close> and \<open>zipPackager.pack\<close>, and disposes of the
  provider; the webview sends \<open>add\<close>, \<open>remove\<close>, \<open>clear\<close> and \<open>pack\<close> through the handler that
  \<open>resolveWebviewView\<close> registers, so \<open>add\<close> and \<open>remove\<close> arrive only while a view is set.
  Each operation runs to its end before the next one starts; the host and the disk may be
  different ones every time.
\<close>

inductive reachable :: "provider \<Rightarrow> bool" where
  start: "reachable constructor"
| resolve: "reachable s \<Longrightarrow> reachable (resolveWebviewView s)"
| add: "reachable s \<Longrightarrow> view s \<Longrightarrow> reachable (handleAdd h rawUris s)"
| remove: "reachable s \<Longrightarrow> view s \<Longrightarrow> reachable (removeEntry k s)"
| clear: "reachable s \<Longrightarrow> reachable (clearAll s)"
| pack: "reachable s \<Longrightarrow> reachable (fst (snd (packEntries h d s)))"
| refreshed: "reachable s \<Longrightarrow> reachable (refresh s)"
| disposed: "reachable s \<Longrightarrow> reachable (dispose s)"

section \<open>Notions used by the properties\<close>

text \<open>
  The registry is well keyed when no key occurs twice and every entry is stored under its own
  \<open>key\<close> field.
\<close>

definition keyed :: "registry \<Rightarrow> bool" where
  "keyed m = (distinct (map fst m) \<and> list_all (\<lambda>p. key (snd p) = fst p) m)"

definition invariant :: "provider \<Rightarrow> bool" where
  "invariant s = (keyed (entries s) \<and> (entries s \<noteq> [] \<longrightarrow> view s))"

text \<open>
  The canonical key a locator resolves to (\<open>Uri.parse(raw).toString()\<close>), and the keys of a
  whole \<open>add\<close> payload.
\<close>

definition locator_key :: "host \<Rightarrow> raw \<Rightarrow> string option" where
  "locator_key h r =
     (case r of
        RawOther \<Rightarrow> None
      | RawString str \<Rightarrow> (case parse h str of None \<Rightarrow> None | Some u \<Rightarrow> Some (toString u)))"

definition batch_keys :: "host \<Rightarrow> rawUris \<Rightarrow> string list" where
  "batch_keys h rawUris = List.map_filter (locator_key h) (incoming rawUris)"

text \<open>The loop invariant of \<open>handleAdd\<close>: \<open>seen\<close> holds the keys of \<open>resolved\<close>, all new.\<close>

definition fresh :: "registry \<Rightarrow> adding \<Rightarrow> bool" where
  "fresh m a =
     (seen a = key ` set (resolved a) \<and> distinct (map key (resolved a)) \<and>
      (\<forall>e\<in>set (resolved a). \<not> map_has m (key e) \<and> key e = toString (uri e)))"

text \<open>The existence re-check of \<open>packEntries\<close>, and the warnings among what was shown.\<close>

definition still_exists :: "host \<Rightarrow> entry \<Rightarrow> bool" where
  "still_exists h e = (stat h (uri e) \<noteq> None)"

definition warnings :: "shown list \<Rightarrow> string list" where
  "warnings xs = List.map_filter (\<lambda>x. case x of WarningMessage t \<Rightarrow> Some t | _ \<Rightarrow> None) xs"

text \<open>
  The provider as \<open>packEntries\<close> has it after its validation pass: the missing entries
  deleted and, when there are any, the snapshot posted and the warning shown.
\<close>

definition pruned :: "host \<Rightarrow> provider \<Rightarrow> provider" where
  "pruned h s =
     (let missing = filter (\<lambda>e. \<not> still_exists h e) (map_values (entries s));
          s1 = s\<lparr>entries := deleteAll (entries s) missing\<rparr>
      in if length missing > 0
         then emit (WarningMessage (''Skipped '' @ nat_toString (length missing) @
                      '' missing item(s).'')) (notifyEntries None s1)
         else s1)"

text \<open>
  A name as \<open>readdir\<close> returns it: not empty, not \<open>.\<close> or \<open>..\<close>, without a separator. An
  absolute path is spelt from such names.
\<close>

definition proper_name :: "string \<Rightarrow> bool" where
  "proper_name seg = (seg \<noteq> [] \<and> seg \<noteq> ''.'' \<and> seg \<noteq> ''..'' \<and> CHR ''/'' \<notin> set seg)"

definition absolute_path :: "string list \<Rightarrow> string" where
  "absolute_path segs = concat (map (\<lambda>seg. CHR ''/'' # seg) segs)"

section \<open>The words of the spec\<close>

text \<open>
  The language tag as the spec words it: the extension, lowercase, without the leading dot,
  and \<open>txt\<close> when there is none.
\<close>

definition lower_char :: "char \<Rightarrow> char" where
  "lower_char c =
     (case map_of (zip ''ABCDEFGHIJKLMNOPQRSTUVWXYZ'' ''abcdefghijklmnopqrstuvwxyz'') c of
        Some l \<Rightarrow> l | None \<Rightarrow> c)"

definition spec_language_tag :: "string \<Rightarrow> string" where
  "spec_language_tag name =
     (let e = drop 1 (extname name) in if e = [] then ''txt'' else map lower_char e)"

text \<open>
  The section of a file as the spec's file system contract draws it, line by line, with the
  word of the heading left open: the spec writes \<open>File\<close> there.
\<close>

definition template :: "string \<Rightarrow> string \<Rightarrow> string \<Rightarrow> string \<Rightarrow> string" where
  "template word rel tag content =
     ''## '' @ word @ '': '' @ [backtick] @ rel @ [backtick] @ [nl] @
     [nl] @
     replicate 3 backtick @ tag @ [nl] @
     content @ [nl] @
     replicate 3 backtick @ [nl] @
     [nl] @
     ''---'' @ [nl] @
     [nl]"

text \<open>
  The timestamp as the spec words it: four digits of the year, then month, day, hour, minute
  and second with two digits each, for a date of the calendar.
\<close>

definition two_digits :: "nat \<Rightarrow> string" where
  "two_digits n = [digit (n div 10), digit (n mod 10)]"

definition four_digits :: "nat \<Rightarrow> string" where
  "four_digits n =
     [digit (n div 1000), digit (n div 100 mod 10), digit (n div 10 mod 10), digit (n mod 10)]"

definition YYYYMMDD_HHmmss :: "date \<Rightarrow> string" where
  "YYYYMMDD_HHmmss t =
     four_digits (nat (getFullYear t)) @ two_digits (getMonth t + 1) @ two_digits (getDate t) @
     ''-'' @ two_digits (getHours t) @ two_digits (getMinutes t) @ two_digits (getSeconds t)"

definition calendar :: "date \<Rightarrow> bool" where
  "calendar t =
     (1000 \<le> getFullYear t \<and> getFullYear t \<le> 9999 \<and> getMonth t \<le> 11 \<and>
      1 \<le> getDate t \<and> getDate t \<le> 31 \<and> getHours t \<le> 23 \<and> getMinutes t \<le> 59 \<and>
      getSeconds t \<le> 59)"

text \<open>The ranges of the five fields after the year, in any year.\<close>

definition clock :: "date \<Rightarrow> bool" where
  "clock t =
     (getMonth t \<le> 11 \<and> 1 \<le> getDate t \<and> getDate t \<le> 31 \<and> getHours t \<le> 23 \<and>
      getMinutes t \<le> 59 \<and> getSeconds t \<le> 59)"

section \<open>The files below a directory\<close>




definition sections :: "string \<Rightarrow> (string list \<times> string) list \<Rightarrow> string" where
  "sections rel fs =
     concat (map (\<lambda>(names, content).
       fileSection (foldl path_join rel names) (ext_of (last names)) content) fs)"


section \<open>A workspace to run the provider on\<close>

text \<open>
  A workspace \<open>/w\<close> on the fifth of January 2024, 14:03:09. \<open>example_host types\<close> answers
  \<open>stat\<close> from the list \<open>types\<close>; \<open>example_state\<close> is the provider after its view was resolved
  and \<open>a.py\<close>, the folder \<open>lib\<close> and \<open>a.py\<close> again were dropped on it.
\<close>

definition example_date :: date where
  "example_date = \<lparr>getFullYear = 2024, getMonth = 0, getDate = 5, getHours = 14,
                    getMinutes = 3, getSeconds = 9\<rparr>"

definition example_host :: "(string \<times> nat) list \<Rightarrow> host" where
  "example_host types =
     \<lparr>parse = (\<lambda>str. if take 7 str = ''file://''
                      then Some \<lparr>toString = str, fsPath = drop 7 str\<rparr> else None),
      getWorkspaceFolder = (\<lambda>u. take 3 (fsPath u) = ''/w/''),
      stat = (\<lambda>u. map_of types (fsPath u)),
      asRelativePath = (\<lambda>u. drop 3 (fsPath u)),
      workspaceFolders = [''/w''],
      now = example_date,
      toLocaleString = ''2024/1/5 14:03:09'',
      refused = (\<lambda>p. False)\<rparr>"

definition host_both :: host where
  "host_both = example_host [(''/w/a.py'', FileType_File), (''/w/lib'', FileType_Directory)]"

definition host_lib_deleted :: host where
  "host_lib_deleted = example_host [(''/w/a.py'', FileType_File)]"

definition host_all_deleted :: host where
  "host_all_deleted = example_host []"

definition host_replaced :: host where
  "host_replaced = example_host [(''/w/a.py'', FileType_Directory)]"

definition example_entry :: "string \<Rightarrow> EntryType \<Rightarrow> entry" where
  "example_entry rel ty =
     \<lparr>uri = \<lparr>toString = ''file:///w/'' @ rel, fsPath = ''/w/'' @ rel\<rparr>,
      key = ''file:///w/'' @ rel, relativePath = rel, type = ty\<rparr>"

definition example_state :: provider where
  "example_state =
     handleAdd host_both
       (UriArray [RawString ''file:///w/a.py'', RawString ''file:///w/lib'',
                  RawString ''file:///w/a.py''])
       (resolveWebviewView constructor)"

definition example_disk :: disk where
  "example_disk = Directory [(''w'', Directory [(''a.py'', File ''print(1)'')])]"

definition replaced_disk :: disk where
  "replaced_disk = Directory [(''w'', Directory [(''a.py'', Directory [])])]"

definition js_disk :: disk where
  "js_disk = Directory [(''w'', Directory [(''Foo.JS'', File ''x'')])]"






section \<open>Lemmas\<close>

text \<open>\<open>nat_toString\<close> is unfolded by hand: its equation rewrites its own right-hand side.\<close>

declare nat_toString.simps [simp del]

subsection \<open>Joining proper names\<close>

text \<open>
  On paths spelt from proper names \<open>path_join\<close> has nothing to normalise: it puts a
  separator between its arguments.
\<close>

lemma split_sep_no_sep: "CHR ''/'' \<notin> set a \<Longrightarrow> split_sep a = [a]"
  by (induction a) auto

lemma split_sep_append: "CHR ''/'' \<notin> set a \<Longrightarrow> split_sep (a @ CHR ''/'' # b) = a # split_sep b"
  by (induction a) auto

lemma split_sep_join:
  "list_all proper_name segs \<Longrightarrow> segs \<noteq> [] \<Longrightarrow> split_sep (join_sep segs) = segs"
  by (induction segs rule: join_sep.induct) (auto simp: proper_name_def split_sep_no_sep split_sep_append)

lemma normalizeString_proper:
  "list_all proper_name segs \<Longrightarrow> normalizeString b res segs = res @ segs"
  by (induction segs arbitrary: res) (auto simp: proper_name_def)


lemma absolute_path_join_sep: "segs \<noteq> [] \<Longrightarrow> absolute_path segs = CHR ''/'' # join_sep segs"
  by (induction segs rule: join_sep.induct) (auto simp: absolute_path_def)

lemma join_sep_nonempty: "list_all proper_name segs \<Longrightarrow> segs \<noteq> [] \<Longrightarrow> join_sep segs \<noteq> []"
  by (induction segs rule: join_sep.induct) (auto simp: proper_name_def)

lemma last_join_sep: "list_all proper_name segs \<Longrightarrow> segs \<noteq> [] \<Longrightarrow> last (join_sep segs) = last (last segs)"
  by (induction segs rule: join_sep.induct) (auto simp: proper_name_def join_sep_nonempty)


lemma proper_last: "proper_name x \<Longrightarrow> last x \<noteq> CHR ''/''"
  by (metis last_in_set proper_name_def)



lemma normalize_absolute:
  assumes "list_all proper_name segs" "segs \<noteq> []"
  shows "path_normalize (absolute_path segs) = absolute_path segs"
proof -
  have ne: "join_sep segs \<noteq> []" using assms by (rule join_sep_nonempty)
  have l: "last (join_sep segs) \<noteq> CHR ''/''"
    using assms by (metis last_join_sep proper_last list_all_iff last_in_set)
  have s: "split_sep (CHR ''/'' # join_sep segs) = [] # segs"
    using assms by (simp add: split_sep_join)
  show ?thesis
    using ne l assms s by (simp add: path_normalize_def absolute_path_join_sep normalizeString_proper del: split_sep.simps)
qed


lemma path_join_absolute:
  assumes "list_all proper_name segs" "segs \<noteq> []" "proper_name x"
  shows "path_join (absolute_path segs) x = absolute_path segs @ CHR ''/'' # x"
proof -
  have "absolute_path segs \<noteq> []" using assms by (simp add: absolute_path_join_sep)
  moreover have "x \<noteq> []" using assms by (simp add: proper_name_def)
  moreover have "path_normalize (absolute_path (segs @ [x])) = absolute_path (segs @ [x])"
    using assms by (intro normalize_absolute) auto
  moreover have "absolute_path (segs @ [x]) = absolute_path segs @ CHR ''/'' # x"
    by (simp add: absolute_path_def)
  ultimately show ?thesis by (simp add: path_join_def)
qed

subsection \<open>What an add does to the registry\<close>

text \<open>
  The loop of \<open>handleAdd\<close> keeps \<open>fresh\<close>, so the \<open>set\<close> calls after it append, one entry
  for each key accepted.
\<close>

lemma emit_simps [simp]:
  "entries (emit x s) = entries s" "view (emit x s) = view s" "log (emit x s) = log s @ [x]"
  by (simp_all add: emit_def)

lemma notifyEntries_simps [simp]:
  "entries (notifyEntries st s) = entries s" "view (notifyEntries st s) = view s"
  by (simp_all add: notifyEntries_def)

lemma map_set_fresh: "\<not> map_has m k \<Longrightarrow> map_set m k v = m @ [(k, v)]"
  by (induction m) (auto simp: map_has_def)

lemma setAll_fresh:
  "distinct (map key es) \<Longrightarrow> \<forall>e\<in>set es. \<not> map_has m (key e) \<Longrightarrow>
   setAll m es = m @ map (\<lambda>e. (key e, e)) es"
proof (induction es arbitrary: m)
  case Nil
  then show ?case by simp
next
  case (Cons e es)
  have "\<forall>x\<in>set es. \<not> map_has (m @ [(key e, e)]) (key x)"
    using Cons.prems by (auto simp: map_has_def image_iff)
  moreover have "\<not> map_has m (key e)" "distinct (map key es)" "key e \<notin> key ` set es"
    using Cons.prems by auto
  ultimately show ?case using Cons.IH [of "m @ [(key e, e)]"] by (simp add: map_set_fresh)
qed

lemma addOne_provider [simp]:
  "entries (snd (addOne h m r ap)) = entries (snd ap)" "view (snd (addOne h m r ap)) = view (snd ap)"
  by (auto simp: addOne_def Let_def split: raw.splits option.splits)

lemma addLoop_provider [simp]:
  "entries (snd (addLoop h m rs ap)) = entries (snd ap)" "view (snd (addLoop h m rs ap)) = view (snd ap)"
  by (induction rs arbitrary: ap) auto

lemma addOne_fresh: "fresh m (fst ap) \<Longrightarrow> fresh m (fst (addOne h m r ap))"
  by (auto simp: addOne_def Let_def fresh_def split: raw.splits option.splits)

lemma addLoop_fresh: "fresh m (fst ap) \<Longrightarrow> fresh m (fst (addLoop h m rs ap))"
  by (induction rs arbitrary: ap) (auto simp: addOne_fresh)

lemma addOne_keys:
  "key ` set (resolved (fst (addOne h m r ap))) \<subseteq>
   key ` set (resolved (fst ap)) \<union> set_option (locator_key h r)"
  by (auto simp: addOne_def Let_def locator_key_def split: raw.splits option.splits)

lemma addLoop_keys:
  "key ` set (resolved (fst (addLoop h m rs ap))) \<subseteq>
   key ` set (resolved (fst ap)) \<union> set (List.map_filter (locator_key h) rs)"
proof (induction rs arbitrary: ap)
  case Nil
  then show ?case by simp
next
  case (Cons r rs)
  have "set (List.map_filter (locator_key h) (r # rs)) =
        set_option (locator_key h r) \<union> set (List.map_filter (locator_key h) rs)"
    by (simp add: map_filter_simps split: option.splits)
  then show ?case
    using Cons.IH [of "addOne h m r ap"] addOne_keys [of h m r ap] by auto
qed

lemma fresh_nothing: "fresh m nothing_added"
  by (simp add: fresh_def nothing_added_def)

lemma handleAdd_entries:
  "entries (handleAdd h rawUris s) =
   entries s @ map (\<lambda>e. (key e, e)) (resolved (fst (addLoop h (entries s) (incoming rawUris) (nothing_added, s))))"
proof -
  let ?ap = "addLoop h (entries s) (incoming rawUris) (nothing_added, s)"
  have f: "fresh (entries s) (fst ?ap)"
    by (rule addLoop_fresh) (simp add: fresh_nothing)
  have e: "entries (snd ?ap) = entries s" by simp
  show ?thesis
  proof (cases "incoming rawUris = []")
    case True
    then show ?thesis by (simp add: handleAdd_def nothing_added_def)
  next
    case False
    have "setAll (entries s) (resolved (fst ?ap)) = entries s @ map (\<lambda>e. (key e, e)) (resolved (fst ?ap))"
      using f by (intro setAll_fresh) (auto simp: fresh_def)
    with False e show ?thesis
      by (simp add: handleAdd_def Let_def split_beta)
  qed
qed

lemma handleAdd_view [simp]: "view (handleAdd h rawUris s) = view s"
  by (simp add: handleAdd_def Let_def split_beta)

lemma keyed_append:
  assumes "keyed m" "distinct (map key es)" "\<forall>e\<in>set es. \<not> map_has m (key e)"
  shows "keyed (m @ map (\<lambda>e. (key e, e)) es)"
proof -
  have "map fst (map (\<lambda>e. (key e, e)) es) = map key es" by simp
  moreover have "set (map fst m) \<inter> set (map key es) = {}"
    using assms(3) by (force simp: map_has_def)
  ultimately show ?thesis
    using assms(1,2) by (auto simp: keyed_def list_all_iff comp_def)
qed

lemma handleAdd_keyed: "keyed (entries s) \<Longrightarrow> keyed (entries (handleAdd h rawUris s))"
proof -
  let ?ap = "addLoop h (entries s) (incoming rawUris) (nothing_added, s)"
  assume k: "keyed (entries s)"
  have f: "fresh (entries s) (fst ?ap)"
    by (rule addLoop_fresh) (simp add: fresh_nothing)
  show ?thesis unfolding handleAdd_entries
    using k f by (intro keyed_append) (auto simp: fresh_def)
qed

subsection \<open>What a pack does to the registry\<close>

text \<open>
  The validation loop splits the entries by \<open>still_exists\<close>; in a keyed registry, deleting
  the keys of the missing ones leaves the entries that still exist.
\<close>

lemma validate_filter:
  "validate h es em = (fst em @ filter (still_exists h) es, snd em @ filter (\<lambda>e. \<not> still_exists h e) es)"
  by (induction es arbitrary: em) (auto simp: still_exists_def split: option.splits)

lemma deleteAll_filter: "deleteAll m lost = filter (\<lambda>p. fst p \<notin> key ` set lost) m"
  by (induction lost arbitrary: m) (auto simp: map_delete_def intro: filter_cong)

lemma keyed_filter: "keyed m \<Longrightarrow> keyed (filter P m)"
  by (simp add: keyed_def distinct_map_filter list_all_iff)

lemma deleteAll_missing:
  assumes "keyed m"
  shows "deleteAll m (filter (\<lambda>e. \<not> still_exists h e) (map_values m)) =
         filter (\<lambda>p. still_exists h (snd p)) m"
  unfolding deleteAll_filter
proof (rule filter_cong [OF refl])
  fix p assume p: "p \<in> set m"
  have "fst p \<in> key ` set (filter (\<lambda>e. \<not> still_exists h e) (map_values m)) \<longleftrightarrow>
        \<not> still_exists h (snd p)"
  proof
    assume "fst p \<in> key ` set (filter (\<lambda>e. \<not> still_exists h e) (map_values m))"
    then obtain q where q: "q \<in> set m" "\<not> still_exists h (snd q)" "key (snd q) = fst p"
      by (auto simp: map_values_def)
    with assms have "fst q = fst p" by (auto simp: keyed_def list_all_iff)
    with assms p q(1) have "q = p" by (auto simp: keyed_def distinct_map inj_on_def)
    with q(2) show "\<not> still_exists h (snd p)" by simp
  next
    assume a: "\<not> still_exists h (snd p)"
    have "key (snd p) = fst p" using assms p by (auto simp: keyed_def list_all_iff)
    with a p show "fst p \<in> key ` set (filter (\<lambda>e. \<not> still_exists h e) (map_values m))"
      by (force simp: map_values_def)
  qed
  then show "(fst p \<notin> key ` set (filter (\<lambda>e. \<not> still_exists h e) (map_values m))) =
             still_exists h (snd p)" by simp
qed

lemma packEntries_validated:
  assumes "entries s \<noteq> []" "workspaceFolders h = root # rest"
  shows "packEntries h d s =
     (let existing = filter (still_exists h) (map_values (entries s)); s2 = pruned h s in
      if existing = []
      then (NothingToPack,
            emit (ErrorMessage ''No valid items remain for packaging.'') (notifyEntries None s2), d)
      else
        let s3 = emit (WithProgress ''Creating markdown file...'' ''Preparing entries'') s2
        in case createArchive h d root existing of
             (d', Some outputPath) \<Rightarrow>
               (Packed outputPath,
                emit (InformationMessage (''Created '' @ basename outputPath @ ''.'') [''Open File''])
                  (notifyEntries None s3), d')
           | (d', None) \<Rightarrow>
               (PackIOError,
                emit (ErrorMessage
                  ''Failed to create markdown file. Check Zip Packager output for details.'')
                  (emit (LogError ''Packaging failed'') s3), d'))"
  using assms by (simp add: packEntries_def validate_filter pruned_def Let_def)

lemma pruned_simps [simp]:
  "view (pruned h s) = view s"
  "entries (pruned h s) = deleteAll (entries s) (filter (\<lambda>e. \<not> still_exists h e) (map_values (entries s)))"
  by (simp_all add: pruned_def Let_def)

lemma packEntries_entries':
  assumes "entries s \<noteq> []" "workspaceFolders h = root # rest"
  shows "entries (fst (snd (packEntries h d s))) = entries (pruned h s)"
    and "view (fst (snd (packEntries h d s))) = view s"
  unfolding packEntries_validated [OF assms]
  by (simp_all add: Let_def split: prod.split option.split)

lemma packEntries_entries:
  assumes "keyed (entries s)" "workspaceFolders h \<noteq> []"
  shows "entries (fst (snd (packEntries h d s))) = filter (\<lambda>p. still_exists h (snd p)) (entries s)"
proof (cases "entries s = []")
  case True
  then show ?thesis by (simp add: packEntries_def)
next
  case False
  obtain root rest where w: "workspaceFolders h = root # rest"
    using assms(2) by (cases "workspaceFolders h") auto
  show ?thesis
    using deleteAll_missing [OF assms(1), of h]
    by (simp add: packEntries_entries' [OF False w])
qed

lemma packEntries_guarded:
  "entries s = [] \<or> workspaceFolders h = [] \<Longrightarrow>
   entries (fst (snd (packEntries h d s))) = entries s \<and> view (fst (snd (packEntries h d s))) = view s"
  by (auto simp: packEntries_def)

lemma packEntries_view [simp]: "view (fst (snd (packEntries h d s))) = view s"
proof (cases "entries s = [] \<or> workspaceFolders h = []")
  case True
  then show ?thesis by (simp add: packEntries_guarded)
next
  case False
  then obtain root rest where "workspaceFolders h = root # rest"
    by (cases "workspaceFolders h") auto
  with False show ?thesis by (simp add: packEntries_entries')
qed

lemma packEntries_keyed:
  assumes "keyed (entries s)"
  shows "keyed (entries (fst (snd (packEntries h d s))))"
proof (cases "workspaceFolders h = []")
  case True
  with assms show ?thesis by (simp add: packEntries_guarded)
next
  case False
  with assms show ?thesis by (simp add: packEntries_entries keyed_filter)
qed

lemma packEntries_nonempty:
  "entries (fst (snd (packEntries h d s))) \<noteq> [] \<Longrightarrow> entries s \<noteq> []"
  by (auto simp: packEntries_def)

subsection \<open>The invariant of the reachable states\<close>

lemma removeEntry_entries: "entries (removeEntry k s) = filter (\<lambda>p. fst p \<noteq> k) (entries s)"
proof (cases "map_has (entries s) k")
  case True
  then show ?thesis by (simp add: removeEntry_def map_delete_def)
next
  case False
  then have "filter (\<lambda>p. fst p \<noteq> k) (entries s) = entries s"
    by (auto simp: map_has_def filter_id_conv)
  with False show ?thesis by (simp add: removeEntry_def map_delete_def)
qed

lemma removeEntry_view [simp]: "view (removeEntry k s) = view s"
  by (cases "map_has (entries s) k") (simp_all add: removeEntry_def map_delete_def)

lemma reachable_invariant: "reachable s \<Longrightarrow> invariant s"
proof (induction rule: reachable.induct)
  case start
  show ?case by (simp add: invariant_def constructor_def keyed_def)
next
  case (resolve s)
  then show ?case by (simp add: invariant_def resolveWebviewView_def)
next
  case (add s h rawUris)
  then show ?case by (simp add: invariant_def handleAdd_keyed)
next
  case (remove s k)
  then show ?case by (simp add: invariant_def removeEntry_entries keyed_filter)
next
  case (clear s)
  then show ?case by (simp add: invariant_def clearAll_def keyed_def)
next
  case (pack s h d)
  then show ?case using packEntries_nonempty [of h d s] by (auto simp: invariant_def packEntries_keyed)
next
  case (refreshed s)
  then show ?case by (simp add: invariant_def refresh_def)
next
  case (disposed s)
  then show ?case by (simp add: invariant_def dispose_def keyed_def)
qed

subsection \<open>Keys of a batch, snapshots, warnings and the archive\<close>

lemma batch_resolved:
  "key ` set (resolved (fst (addLoop h m (incoming rawUris) (nothing_added, s)))) \<subseteq>
   set (batch_keys h rawUris)"
  using addLoop_keys [of h m "incoming rawUris" "(nothing_added, s)"]
  by (simp add: batch_keys_def nothing_added_def)

lemma snapshot_filter:
  assumes "keyed m"
  shows "snapshot (s\<lparr>entries := filter (\<lambda>p. fst p \<noteq> k) m\<rparr>) =
         filter (\<lambda>x. fst x \<noteq> k) (snapshot (s\<lparr>entries := m\<rparr>))"
proof -
  have "\<forall>p\<in>set m. key (snd p) = fst p" using assms by (simp add: keyed_def list_all_iff)
  then show ?thesis
    by (induction m) (auto simp: snapshot_def map_values_def)
qed

lemma warnings_simps [simp]:
  "warnings [] = []"
  "warnings (xs @ ys) = warnings xs @ warnings ys"
  "warnings (x # xs) = (case x of WarningMessage t \<Rightarrow> [t] | _ \<Rightarrow> []) @ warnings xs"
  by (simp_all add: warnings_def map_filter_def split: shown.splits)

lemma warnings_notify [simp]: "warnings (log (notifyEntries st s)) = warnings (log s)"
  by (simp add: notifyEntries_def)

lemma pruned_warnings:
  "warnings (log (pruned h s)) = warnings (log s) @
     (let missing = filter (\<lambda>e. \<not> still_exists h e) (map_values (entries s)) in
      if missing = [] then []
      else [''Skipped '' @ nat_toString (length missing) @ '' missing item(s).''])"
  by (simp add: pruned_def Let_def)

lemma createArchive_Some:
  "createArchive h d root es = (d', Some p) \<longleftrightarrow>
   (\<exists>d1 md. ensureDir (refused h) d (path_join root ''search'') = Some d1 \<and>
            addEntries d1 es (header h) = Some md \<and>
            p = path_join (path_join root ''search'') (''bundle-'' @ formatTimestamp (now h) @ ''.md'') \<and>
            writeFile (refused h) d1 p md = Some d')"
  by (auto simp: createArchive_def Let_def split: option.splits)

lemma map_of_put: "map_of (put items n x) m = (if m = n then Some x else map_of items m)"
  by (induction items n x rule: put.induct) auto

lemma store_lookup: "store t ns x = Some t' \<Longrightarrow> lookup t' ns = Some x"
  by (induction t ns x arbitrary: t' rule: store.induct)
     (auto simp: map_of_put split: option.splits)

lemma store_parent:
  "store t (ns @ [n]) x = Some t' \<Longrightarrow>
   \<exists>items. lookup t ns = Some (Directory items) \<and>
           lookup t' ns = Some (Directory (put items n x))"
proof (induction ns arbitrary: t t')
  case Nil
  then show ?case by (cases t) auto
next
  case (Cons m ns)
  obtain k ks where k: "ns @ [n] = k # ks" by (cases "ns @ [n]") auto
  show ?case
  proof (cases t)
    case (Directory its)
    with Cons.prems k obtain child child' where
      c: "map_of its m = Some child" "store child (ns @ [n]) x = Some child'"
         "t' = Directory (put its m child')"
      by (auto split: option.splits)
    from Cons.IH [OF c(2)] obtain items where
      "lookup child ns = Some (Directory items)"
      "lookup child' ns = Some (Directory (put items n x))"
      by blast
    with Directory c show ?thesis by (simp add: map_of_put)
  qed (use Cons.prems k in auto)
qed

lemma mkdirs_fresh:
  "lookup t ns = None \<Longrightarrow> mkdirs t ns = Some t' \<Longrightarrow> lookup t' ns = Some (Directory [])"
proof (induction t ns arbitrary: t' rule: mkdirs.induct)
  case (2 items n ns)
  let ?child = "case map_of items n of None \<Rightarrow> Directory [] | Some child \<Rightarrow> child"
  from 2(3) obtain child' where
    c: "mkdirs ?child ns = Some child'" "t' = Directory (put items n child')"
    by (auto split: option.splits)
  have l: "lookup ?child ns = None \<or> (ns = [] \<and> ?child = Directory [])"
    using 2(2) by (cases ns) (auto split: option.splits)
  then have "lookup child' ns = Some (Directory [])"
  proof
    assume "lookup ?child ns = None"
    then show ?thesis using c(1) by (rule 2(1))
  next
    assume "ns = [] \<and> ?child = Directory []"
    then show ?thesis using c(1) by simp
  qed
  then show ?case by (simp add: c(2) map_of_put)
qed simp_all

lemma writeFile_Some:
  assumes "writeFile r d p md = Some d'"
  shows "store d (segments p) (File md) = Some d'" and "disk_at d' p = Some (File md)"
proof -
  show 1: "store d (segments p) (File md) = Some d'"
    using assms by (auto simp: writeFile_def split: option.splits fsnode.splits if_splits)
  show "disk_at d' p = Some (File md)"
    unfolding disk_at_def by (rule store_lookup [OF 1])
qed

subsection \<open>Extensions\<close>

lemma last_portion_file:
  assumes "base \<noteq> []" "last base \<noteq> CHR ''/''" "ext \<noteq> []" "CHR ''/'' \<notin> set ext"
  shows "\<exists>b. b \<noteq> [] \<and> last_portion (base @ CHR ''.'' # ext) = b @ CHR ''.'' # ext"
proof -
  obtain x xs where r: "rev ext = x # xs" using assms(3) by (cases "rev ext") auto
  have x: "x \<noteq> CHR ''/''" using r assms(4) by (metis list.set_intros(1) set_rev)
  have all: "\<forall>c\<in>set (rev ext). c \<noteq> CHR ''/''" using assms(4) by auto
  obtain y ys where b: "rev base = y # ys" using assms(1) by (cases "rev base") auto
  have y: "y \<noteq> CHR ''/''" using b assms(1,2) by (metis last_rev hd_rev list.sel(1) rev_rev_ident)
  have d: "dropWhile (\<lambda>c. c = CHR ''/'') (rev (base @ CHR ''.'' # ext)) = rev ext @ CHR ''.'' # rev base"
    using r x by simp
  have t: "takeWhile (\<lambda>c. c \<noteq> CHR ''/'') (rev ext @ CHR ''.'' # rev base) =
           rev ext @ CHR ''.'' # takeWhile (\<lambda>c. c \<noteq> CHR ''/'') (rev base)"
    using all by (subst takeWhile_append2) auto
  let ?b = "rev (takeWhile (\<lambda>c. c \<noteq> CHR ''/'') (rev base))"
  have "?b \<noteq> []" using b y by simp
  moreover have "last_portion (base @ CHR ''.'' # ext) = ?b @ CHR ''.'' # ext"
    unfolding last_portion_def d t by simp
  ultimately show ?thesis by blast
qed

lemma ext_of_extension:
  assumes "base \<noteq> []" "last base \<noteq> CHR ''/''" "ext \<noteq> []" "CHR ''.'' \<notin> set ext" "CHR ''/'' \<notin> set ext"
  shows "ext_of (base @ CHR ''.'' # ext) = ext"
proof -
  obtain b where b: "b \<noteq> []" "last_portion (base @ CHR ''.'' # ext) = b @ CHR ''.'' # ext"
    using last_portion_file [OF assms(1,2,3,5)] by blast
  have all: "\<forall>c\<in>set (rev ext). c \<noteq> CHR ''.''" using assms(4) by auto
  have a: "rev (takeWhile (\<lambda>c. c \<noteq> CHR ''.'') (rev (b @ CHR ''.'' # ext))) = ext"
    using all by (simp, subst takeWhile_append2) auto
  have l: "length (b @ CHR ''.'' # ext) \<ge> 3"
    using b(1) assms(3) by (cases b; cases ext) auto
  have n: "b @ CHR ''.'' # ext \<noteq> ''..''"
  proof
    assume "b @ CHR ''.'' # ext = ''..''"
    then have "length (b @ CHR ''.'' # ext) = length ''..''" by (rule arg_cong)
    with l show False by simp
  qed
  have "extname (base @ CHR ''.'' # ext) = CHR ''.'' # ext"
    unfolding extname_def b(2) Let_def a using b(1) n by simp
  then show ?thesis using assms(3) by (simp add: ext_of_def)
qed

lemma ext_of_no_dot: "CHR ''.'' \<notin> set (last_portion name) \<Longrightarrow> ext_of name = ''txt''"
  by (simp add: ext_of_def extname_def)

lemma last_portion_leaf:
  assumes "leaf \<noteq> []" "CHR ''/'' \<notin> set leaf" "dir = [] \<or> last dir = CHR ''/''"
  shows "last_portion (dir @ leaf) = leaf"
proof -
  obtain x xs where r: "rev leaf = x # xs" using assms(1) by (cases "rev leaf") auto
  have x: "x \<noteq> CHR ''/''" using r assms(2) by (metis list.set_intros(1) set_rev)
  have d: "dropWhile (\<lambda>c. c = CHR ''/'') (rev (dir @ leaf)) = rev leaf @ rev dir"
    using r x by simp
  have all: "\<forall>c\<in>set (rev leaf). c \<noteq> CHR ''/''" using assms(2) by auto
  have t: "takeWhile (\<lambda>c. c \<noteq> CHR ''/'') (rev dir) = []"
    using assms(3) by (cases "rev dir") (auto simp: last_rev [symmetric] simp del: last_rev)
  have "takeWhile (\<lambda>c. c \<noteq> CHR ''/'') (rev leaf @ rev dir) = rev leaf"
    using all t by (subst takeWhile_append2) auto
  then show ?thesis unfolding last_portion_def d by simp
qed

lemma extname_none:
  assumes "last_portion name = leaf" "leaf = [] \<or> last leaf = CHR ''.'' \<or> CHR ''.'' \<notin> set (tl leaf)"
  shows "ext_of name = ''txt''"
proof -
  consider "leaf = []" | "leaf \<noteq> []" "last leaf = CHR ''.''"
    | "leaf \<noteq> []" "CHR ''.'' \<notin> set (tl leaf)"
    using assms(2) by blast
  then have "drop 1 (extname name) = []"
  proof cases
    case 1
    then show ?thesis using assms(1) by (simp add: extname_def)
  next
    case 2
    then obtain ys where "rev leaf = CHR ''.'' # ys"
      by (cases "rev leaf") (auto simp: last_rev [symmetric] simp del: last_rev)
    then show ?thesis using assms(1) by (simp add: extname_def Let_def)
  next
    case 3
    show ?thesis
    proof (cases "CHR ''.'' \<in> set leaf")
      case False
      then show ?thesis using assms(1) by (simp add: extname_def)
    next
      case True
      with 3 obtain ys where l: "leaf = CHR ''.'' # ys" "CHR ''.'' \<notin> set ys"
        by (cases leaf) auto
      have "takeWhile (\<lambda>c. c \<noteq> CHR ''.'') (rev ys @ [CHR ''.'']) = rev ys"
        using l(2) by (subst takeWhile_append2) auto
      then show ?thesis using assms(1) l by (simp add: extname_def Let_def)
    qed
  qed
  then show ?thesis by (simp add: ext_of_def Let_def)
qed

lemma leaf_split:
  assumes "leaf \<noteq> []" "last leaf \<noteq> CHR ''.''" "CHR ''.'' \<in> set (tl leaf)"
  shows "\<exists>b ext. leaf = b @ CHR ''.'' # ext \<and> b \<noteq> [] \<and> ext \<noteq> [] \<and> CHR ''.'' \<notin> set ext"
proof -
  have "CHR ''.'' \<in> set leaf" using assms(1,3) by (cases leaf) auto
  then obtain b ext where s: "leaf = b @ CHR ''.'' # ext" "CHR ''.'' \<notin> set ext"
    by (meson split_list_last)
  have "ext \<noteq> []" using s(1) assms(2) by auto
  moreover have "b \<noteq> []"
  proof
    assume "b = []"
    with s have "tl leaf = ext" by simp
    with s(2) assms(3) show False by simp
  qed
  ultimately show ?thesis using s by blast
qed

lemma fileSection_template: "fileSection rel tag content = template label rel tag content"
  by (simp add: fileSection_def heading_def fence_def template_def)

subsection \<open>Walking a directory\<close>


lemma sections_simps [simp]:
  "sections rel [] = []"
  "sections rel (fs @ gs) = sections rel fs @ sections rel gs"
  by (simp_all add: sections_def)





subsection \<open>Timestamps and the output path\<close>

lemma nat_toString_small: "n < 10 \<Longrightarrow> nat_toString n = [digit n]"
  by (simp add: nat_toString.simps)

lemma nat_toString_step: "10 \<le> n \<Longrightarrow> nat_toString n = nat_toString (n div 10) @ [digit (n mod 10)]"
  by (subst nat_toString.simps) simp

lemma pad_two_digits: "n < 100 \<Longrightarrow> pad n = two_digits n"
proof (cases "n < 10")
  case True
  then show ?thesis
    by (simp add: pad_def padStart_def nat_toString_small two_digits_def digit_def)
next
  case False
  assume "n < 100"
  with False have "n div 10 < 10" "10 \<le> n" by auto
  then show ?thesis
    by (simp add: pad_def padStart_def nat_toString_step nat_toString_small two_digits_def)
qed

lemma nat_toString_four:
  assumes "1000 \<le> n" "n < 10000"
  shows "nat_toString n = four_digits n"
proof -
  have a: "10 \<le> n" "10 \<le> n div 10" "10 \<le> n div 100" "n div 1000 < 10"
    using assms by auto
  have d: "n div 10 div 10 = n div 100" "n div 100 div 10 = n div 1000"
    by (simp_all add: div_mult2_eq [symmetric])
  have "nat_toString n = nat_toString (n div 10) @ [digit (n mod 10)]"
    using a(1) by (rule nat_toString_step)
  also have "nat_toString (n div 10) = nat_toString (n div 100) @ [digit (n div 10 mod 10)]"
    using nat_toString_step [OF a(2)] by (simp add: d)
  also have "nat_toString (n div 100) = nat_toString (n div 1000) @ [digit (n div 100 mod 10)]"
    using nat_toString_step [OF a(3)] by (simp add: d)
  also have "nat_toString (n div 1000) = [digit (n div 1000)]"
    using a(4) by (rule nat_toString_small)
  finally show ?thesis by (simp add: four_digits_def)
qed

lemma formatTimestamp_calendar:
  assumes "calendar t"
  shows "formatTimestamp t = YYYYMMDD_HHmmss t"
proof -
  have "1000 \<le> nat (getFullYear t)" "nat (getFullYear t) < 10000" "\<not> getFullYear t < 0"
    using assms by (auto simp: calendar_def)
  then have y: "int_toString (getFullYear t) = four_digits (nat (getFullYear t))"
    by (simp add: int_toString_def nat_toString_four)
  show ?thesis
    using assms by (simp add: formatTimestamp_def YYYYMMDD_HHmmss_def y calendar_def pad_two_digits)
qed

lemma formatTimestamp_clock:
  assumes "clock t"
  shows "formatTimestamp t =
           int_toString (getFullYear t) @ two_digits (getMonth t + 1) @ two_digits (getDate t) @
           ''-'' @ two_digits (getHours t) @ two_digits (getMinutes t) @ two_digits (getSeconds t)"
  using assms by (simp add: formatTimestamp_def clock_def pad_two_digits)

lemma digit_no_sep:
  assumes "n < 10"
  shows "digit n \<noteq> CHR ''/''"
proof -
  have "n \<in> {0, 1, 2, 3, 4, 5, 6, 7, 8, 9}" using assms by auto
  then show ?thesis by (auto simp: digit_def)
qed

lemma nat_toString_no_sep: "CHR ''/'' \<notin> set (nat_toString n)"
proof (induction n rule: nat_toString.induct)
  case (1 n)
  show ?case
  proof (cases "n < 10")
    case True
    then show ?thesis using digit_no_sep [of n] by (auto simp: nat_toString_small)
  next
    case False
    then have "CHR ''/'' \<notin> set (nat_toString (n div 10))" by (rule 1)
    moreover have "digit (n mod 10) \<noteq> CHR ''/''" by (rule digit_no_sep) simp
    ultimately show ?thesis using False by (auto simp: nat_toString_step)
  qed
qed

lemma pad_no_sep: "CHR ''/'' \<notin> set (pad n)"
  using nat_toString_no_sep [of n] by (auto simp: pad_def padStart_def)

lemma formatTimestamp_no_sep: "CHR ''/'' \<notin> set (formatTimestamp t)"
  using nat_toString_no_sep by (simp add: formatTimestamp_def pad_no_sep int_toString_def)

lemma bundle_proper: "proper_name (''bundle-'' @ formatTimestamp t @ ''.md'')"
  using formatTimestamp_no_sep [of t] by (simp add: proper_name_def)

lemma search_proper: "proper_name ''search''"
  by (simp add: proper_name_def)

lemma archive_path:
  assumes "list_all proper_name segs" "segs \<noteq> []"
  shows "path_join (absolute_path segs) ''search'' = absolute_path segs @ ''/search''"
    and "path_join (path_join (absolute_path segs) ''search'') (''bundle-'' @ formatTimestamp t @ ''.md'') =
         absolute_path segs @ ''/search/bundle-'' @ formatTimestamp t @ ''.md''"
proof -
  show 1: "path_join (absolute_path segs) ''search'' = absolute_path segs @ ''/search''"
    using path_join_absolute [OF assms search_proper] by simp
  have a: "absolute_path segs @ ''/search'' = absolute_path (segs @ [''search''])"
    by (simp add: absolute_path_def)
  have "list_all proper_name (segs @ [''search''])" "segs @ [''search''] \<noteq> []"
    using assms search_proper by simp_all
  from path_join_absolute [OF this bundle_proper, of t]
  show "path_join (path_join (absolute_path segs) ''search'') (''bundle-'' @ formatTimestamp t @ ''.md'') =
         absolute_path segs @ ''/search/bundle-'' @ formatTimestamp t @ ''.md''"
    unfolding 1 a by (simp add: absolute_path_def)
qed

lemma packEntries_Packed:
  assumes "fst (packEntries h d s) = Packed p" "workspaceFolders h = root # rest"
  shows "createArchive h d root (filter (still_exists h) (map_values (entries s))) =
           (snd (snd (packEntries h d s)), Some p)"
proof -
  let ?existing = "filter (still_exists h) (map_values (entries s))"
  have ne: "entries s \<noteq> []" using assms(1) by (auto simp: packEntries_def)
  note v = packEntries_validated [OF ne assms(2), of d]
  have ex: "?existing \<noteq> []" using assms(1) unfolding v by (auto simp: Let_def)
  obtain d2 res where c: "createArchive h d root ?existing = (d2, res)"
    by (cases "createArchive h d root ?existing")
  show ?thesis
    using assms(1) ex by (cases res) (simp_all add: v c Let_def)
qed

lemma ensureDir_Some:
  assumes "ensureDir r d p = Some d1"
  shows "disk_at d1 p =
           (case disk_at d p of None \<Rightarrow> Some (Directory []) | Some node \<Rightarrow> Some node)"
    and "disk_at d p \<noteq> None \<Longrightarrow> d1 = d"
proof -
  show "disk_at d p \<noteq> None \<Longrightarrow> d1 = d"
    using assms by (auto simp: ensureDir_def split: option.splits fsnode.splits if_splits)
  show "disk_at d1 p =
          (case disk_at d p of None \<Rightarrow> Some (Directory []) | Some node \<Rightarrow> Some node)"
  proof (cases "disk_at d p")
    case None
    then have "mkdirs d (segments p) = Some d1"
      using assms by (simp add: ensureDir_def split: if_splits)
    with None show ?thesis
      unfolding disk_at_def by (simp add: mkdirs_fresh)
  next
    case (Some node)
    then show ?thesis
      using assms by (auto simp: ensureDir_def split: fsnode.splits)
  qed
qed

lemma ensureDir_again: "disk_at d p = Some (Directory items) \<Longrightarrow> ensureDir r d p = Some d"
  by (simp add: ensureDir_def)

lemma segments_absolute:
  assumes "list_all proper_name segs"
  shows "segments (absolute_path segs) = segs"
proof (cases "segs = []")
  case True
  then show ?thesis by (simp add: segments_def absolute_path_def)
next
  case False
  have "split_sep (CHR ''/'' # join_sep segs) = [] # segs"
    using assms False by (simp add: split_sep_join)
  then show ?thesis
    using assms False
    by (simp add: segments_def absolute_path_join_sep normalizeString_proper
        del: split_sep.simps)
qed

subsection \<open>The order of a listing, and joined paths\<close>







section \<open>The example workspace, evaluated\<close>

lemma example_state_reachable: "reachable example_state"
  unfolding example_state_def
  by (intro reachable.add reachable.resolve reachable.start) (simp add: resolveWebviewView_def)

lemma example_state_entries:
  "entries example_state =
     [(''file:///w/a.py'', example_entry ''a.py'' type_file),
      (''file:///w/lib'', example_entry ''lib'' type_directory)]"
  by (simp add: example_state_def handleAdd_def incoming_def nothing_added_def addOne_def
      host_both_def example_host_def example_entry_def map_has_def resolveWebviewView_def
      constructor_def notifyEntries_def emit_def FileType_File_def FileType_Directory_def Let_def)

lemma example_state_log:
  "log example_state =
     [PostMessage [] None,
      PostMessage [(''file:///w/a.py'', ''a.py'', type_file),
                   (''file:///w/lib'', ''lib'', type_directory)] (Some ''Items added.'')]"
  by (simp add: example_state_def handleAdd_def incoming_def nothing_added_def addOne_def
      host_both_def example_host_def map_has_def resolveWebviewView_def snapshot_def map_values_def
      constructor_def notifyEntries_def emit_def FileType_File_def FileType_Directory_def Let_def)

lemma example_state_nonempty: "entries example_state \<noteq> []"
  by (simp add: example_state_entries)

lemma example_snapshot:
  "snapshot example_state =
     [(''file:///w/a.py'', ''a.py'', type_file), (''file:///w/lib'', ''lib'', type_directory)]"
  by (simp add: snapshot_def example_state_entries map_values_def example_entry_def)

lemma example_roots:
  "workspaceFolders host_lib_deleted = ''/w'' # []"
  "workspaceFolders host_all_deleted = ''/w'' # []"
  "workspaceFolders host_replaced = ''/w'' # []"
  by (simp_all add: host_lib_deleted_def host_all_deleted_def host_replaced_def example_host_def)

lemma example_existing:
  "filter (still_exists host_lib_deleted) (map_values (entries example_state)) =
     [example_entry ''a.py'' type_file]"
  "filter (\<lambda>e. \<not> still_exists host_lib_deleted e) (map_values (entries example_state)) =
     [example_entry ''lib'' type_directory]"
  "filter (\<lambda>p. still_exists host_lib_deleted (snd p)) (entries example_state) =
     [(''file:///w/a.py'', example_entry ''a.py'' type_file)]"
  "filter (still_exists host_replaced) (map_values (entries example_state)) =
     [example_entry ''a.py'' type_file]"
  "list_all (\<lambda>p. \<not> still_exists host_all_deleted (snd p)) (entries example_state)"
  by (simp_all add: example_state_entries map_values_def still_exists_def example_host_def
      host_lib_deleted_def host_all_deleted_def host_replaced_def example_entry_def)

lemma example_timestamp: "formatTimestamp example_date = ''20240105-140309''"
  by (simp add: formatTimestamp_def example_date_def pad_def padStart_def int_toString_def
      digit_def nat_toString.simps)

lemma example_paths:
  "path_join ''/w'' ''search'' = ''/w/search''"
  "path_join ''/w/search'' ''bundle-20240105-140309.md'' = ''/w/search/bundle-20240105-140309.md''"
  by (simp_all add: path_join_def path_normalize_def)

lemma example_ext: "ext_of ''a.py'' = ''py''"
  by (simp add: ext_of_def extname_def last_portion_def)

lemma example_segments:
  "segments ''/w/a.py'' = [''w'', ''a.py'']"
  "segments ''/w/lib'' = [''w'', ''lib'']"
  "segments ''/w/Foo.JS'' = [''w'', ''Foo.JS'']"
  "segments ''/w/search'' = [''w'', ''search'']"
  "segments ''/w/search/bundle-20240105-140309.md'' =
     [''w'', ''search'', ''bundle-20240105-140309.md'']"
  by (simp_all add: segments_def)

lemma example_reads:
  "readFile example_disk ''/w/a.py'' = Some ''print(1)''"
  "readFile js_disk ''/w/Foo.JS'' = Some ''x''"
  "readFile replaced_disk ''/w/a.py'' = None"
  "disk_at example_disk ''/w/search'' = None"
  by (simp_all add: readFile_def disk_at_def example_segments example_disk_def js_disk_def
      replaced_disk_def)

lemma example_fields:
  "fsPath (uri (example_entry rel ty)) = ''/w/'' @ rel"
  "relativePath (example_entry rel ty) = rel"
  "type (example_entry rel ty) = ty"
  by (simp_all add: example_entry_def)

lemma example_archive:
  "createArchive host_lib_deleted example_disk ''/w'' [example_entry ''a.py'' type_file] =
     (Directory
        [(''w'', Directory
           [(''a.py'', File ''print(1)''),
            (''search'', Directory
               [(''bundle-20240105-140309.md'',
                 File (header host_lib_deleted @ fileSection ''a.py'' ''py'' ''print(1)''))])])],
      Some ''/w/search/bundle-20240105-140309.md'')"
proof -
  let ?d1 = "Directory [(''w'', Directory [(''a.py'', File ''print(1)''), (''search'', Directory [])])]"
  have n: "now host_lib_deleted = example_date" "refused host_lib_deleted = (\<lambda>p. False)"
    by (simp_all add: host_lib_deleted_def example_host_def)
  have en: "ensureDir (\<lambda>p. False) example_disk ''/w/search'' = Some ?d1"
    by (simp add: ensureDir_def disk_at_def example_segments example_disk_def)
  have a: "addEntries ?d1 [example_entry ''a.py'' type_file] md =
           Some (md @ fileSection ''a.py'' ''py'' ''print(1)'')" for md
    by (simp add: example_fields readFile_def disk_at_def example_segments example_ext)
  have w: "writeFile (\<lambda>p. False) ?d1 ''/w/search/bundle-20240105-140309.md'' md =
           Some (Directory
             [(''w'', Directory
                [(''a.py'', File ''print(1)''),
                 (''search'', Directory [(''bundle-20240105-140309.md'', File md)])])])" for md
    by (simp add: writeFile_def disk_at_def example_segments)
  show ?thesis
    by (simp add: createArchive_def Let_def n example_timestamp example_paths en a w
        del: addEntries.simps)
qed

lemma example_pack:
  "fst (packEntries host_lib_deleted example_disk example_state) =
     Packed ''/w/search/bundle-20240105-140309.md''"
  "snd (snd (packEntries host_lib_deleted example_disk example_state)) =
     Directory
        [(''w'', Directory
           [(''a.py'', File ''print(1)''),
            (''search'', Directory
               [(''bundle-20240105-140309.md'',
                 File (header host_lib_deleted @ fileSection ''a.py'' ''py'' ''print(1)''))])])]"
  unfolding packEntries_validated [OF example_state_nonempty example_roots(1)]
  by (simp_all add: example_existing example_archive Let_def)

section \<open>The registry\<close>

text \<open>
  C1. Whatever the provider has done so far, no key occurs twice in its registry. An \<open>add\<close>
  keeps it so: it leaves the entries that are there as they are and appends entries whose
  keys are keys of the batch, are not in the registry, and differ from each other (a locator
  whose key is in the registry or was accepted earlier in the batch is skipped). A batch all
  of whose keys are in the registry leaves the registry unchanged.
\<close>

theorem add_keeps_keys_unique:
  assumes "reachable s"
  shows "distinct (map fst (entries s)) \<and>
         distinct (map fst (entries (handleAdd h rawUris s))) \<and>
         (\<exists>new. entries (handleAdd h rawUris s) = entries s @ new \<and>
                set (map fst new) \<subseteq> set (batch_keys h rawUris) - set (map fst (entries s))) \<and>
         (set (batch_keys h rawUris) \<subseteq> set (map fst (entries s)) \<longrightarrow>
            entries (handleAdd h rawUris s) = entries s)"
proof -
  let ?new = "resolved (fst (addLoop h (entries s) (incoming rawUris) (nothing_added, s)))"
  have k: "keyed (entries s)"
    using reachable_invariant [OF assms] by (simp add: invariant_def)
  have f: "fresh (entries s) (fst (addLoop h (entries s) (incoming rawUris) (nothing_added, s)))"
    by (rule addLoop_fresh) (simp add: fresh_nothing)
  have sub: "key ` set ?new \<subseteq> set (batch_keys h rawUris)" by (rule batch_resolved)
  have dis: "key ` set ?new \<inter> set (map fst (entries s)) = {}"
    using f by (fastforce simp: fresh_def map_has_def image_iff)
  have 1: "distinct (map fst (entries s))" using k by (simp add: keyed_def)
  have 2: "distinct (map fst (entries (handleAdd h rawUris s)))"
    using handleAdd_keyed [OF k] by (simp add: keyed_def)
  have 3: "entries (handleAdd h rawUris s) = entries s @ map (\<lambda>e. (key e, e)) ?new"
    by (rule handleAdd_entries)
  have 4: "set (map fst (map (\<lambda>e. (key e, e)) ?new)) \<subseteq>
           set (batch_keys h rawUris) - set (map fst (entries s))"
    using sub dis by (auto simp: comp_def)
  have 5: "?new = []" if "set (batch_keys h rawUris) \<subseteq> set (map fst (entries s))"
    using that sub dis by (cases ?new) auto
  show ?thesis
    using 1 2 3 4 5 by (intro conjI exI [of _ "map (\<lambda>e. (key e, e)) ?new"] impI) simp_all
qed

theorem add_keeps_keys_unique_witness:
  "reachable example_state \<and>
   map fst (entries example_state) = [''file:///w/a.py'', ''file:///w/lib''] \<and>
   distinct (map fst (entries example_state)) \<and>
   batch_keys host_both (UriString ''file:///w/a.py'') = [''file:///w/a.py''] \<and>
   entries (handleAdd host_both (UriString ''file:///w/a.py'') example_state) =
     entries example_state"
proof -
  have "batch_keys host_both (UriString ''file:///w/a.py'') = [''file:///w/a.py'']"
    by (simp add: batch_keys_def incoming_def locator_key_def host_both_def example_host_def
        map_filter_simps)
  then show ?thesis
    using add_keeps_keys_unique [OF example_state_reachable, of host_both
        "UriString ''file:///w/a.py''"] example_state_reachable
    by (simp add: example_state_entries)
qed

text \<open>
  C8. \<open>clearAll\<close> on a registry that is not empty empties it, so that the snapshot is empty,
  and posts the empty snapshot to the view. On an empty registry it changes nothing and posts
  nothing: it shows the information message that the list is already empty.
\<close>

theorem clear_all:
  assumes "reachable s"
  shows "(entries s \<noteq> [] \<longrightarrow>
            entries (clearAll s) = [] \<and> snapshot (clearAll s) = [] \<and>
            log (clearAll s) = log s @ [PostMessage [] None]) \<and>
         (entries s = [] \<longrightarrow>
            clearAll s = emit (InformationMessage ''Zip Packager list is already empty.'' []) s \<and>
            entries (clearAll s) = [] \<and>
            log (clearAll s) = log s @ [InformationMessage ''Zip Packager list is already empty.'' []])"
proof -
  have "entries s \<noteq> [] \<longrightarrow> view s"
    using reachable_invariant [OF assms] by (simp add: invariant_def)
  then show ?thesis
    by (auto simp: clearAll_def notifyEntries_def snapshot_def map_values_def)
qed

theorem clear_all_witness:
  "reachable example_state \<and> entries example_state \<noteq> [] \<and>
   entries (clearAll example_state) = [] \<and>
   log (clearAll example_state) = log example_state @ [PostMessage [] None] \<and>
   reachable (clearAll example_state) \<and>
   log (clearAll (clearAll example_state)) =
     log example_state @ [PostMessage [] None,
                          InformationMessage ''Zip Packager list is already empty.'' []]"
proof -
  have r: "reachable (clearAll example_state)"
    by (rule reachable.clear [OF example_state_reachable])
  show ?thesis
    using clear_all [OF example_state_reachable] clear_all [OF r] example_state_nonempty
      example_state_reachable r
    by simp
qed

text \<open>
  C9 as the spec has it says that \<open>remove\<close> triggers a display refresh, present key or not.
  For a key that is not in the registry \<open>removeEntry\<close> returns before \<open>notifyEntries\<close>:
  nothing is posted to the view.
\<close>

theorem remove_entry_counterexample:
  "view example_state \<and>
   \<not> map_has (entries example_state) ''file:///w/b.py'' \<and>
   log (removeEntry ''file:///w/b.py'' example_state) = log example_state"
proof -
  have v: "view example_state"
    by (simp add: example_state_def resolveWebviewView_def)
  have h: "\<not> map_has (entries example_state) ''file:///w/b.py''"
    by (simp add: map_has_def example_state_entries)
  have "removeEntry ''file:///w/b.py'' example_state = example_state"
    using h by (simp add: removeEntry_def map_delete_def)
  with v h show ?thesis by simp
qed

text \<open>
  C9, amended. \<open>removeEntry\<close> of a key that is in the registry deletes its entry and posts
  the new snapshot to the view; of a key that is not there it does nothing at all, and posts
  nothing. Either way the snapshot afterwards is the old one without the entry of that key:
  the key is not in it, and the other entries stand as they stood.
\<close>

theorem remove_entry:
  assumes "reachable s"
  shows "(map_has (entries s) k \<longrightarrow>
            log (removeEntry k s) = log s @ [PostMessage (snapshot (removeEntry k s)) None]) \<and>
         (\<not> map_has (entries s) k \<longrightarrow> removeEntry k s = s) \<and>
         entries (removeEntry k s) = filter (\<lambda>p. fst p \<noteq> k) (entries s) \<and>
         snapshot (removeEntry k s) = filter (\<lambda>x. fst x \<noteq> k) (snapshot s) \<and>
         k \<notin> fst ` set (snapshot (removeEntry k s))"
proof -
  have inv: "keyed (entries s)" "entries s \<noteq> [] \<longrightarrow> view s"
    using reachable_invariant [OF assms] by (simp_all add: invariant_def)
  have a: "map_has (entries s) k \<Longrightarrow> view s"
    using inv(2) by (auto simp: map_has_def)
  have 1: "map_has (entries s) k \<longrightarrow>
           log (removeEntry k s) = log s @ [PostMessage (snapshot (removeEntry k s)) None]"
    using a by (auto simp: removeEntry_def map_delete_def notifyEntries_def emit_def snapshot_def)
  have 2: "\<not> map_has (entries s) k \<longrightarrow> removeEntry k s = s"
    by (simp add: removeEntry_def map_delete_def)
  have 3: "entries (removeEntry k s) = filter (\<lambda>p. fst p \<noteq> k) (entries s)"
    by (rule removeEntry_entries)
  have "snapshot (removeEntry k s) = snapshot (s\<lparr>entries := filter (\<lambda>p. fst p \<noteq> k) (entries s)\<rparr>)"
    by (simp add: snapshot_def 3)
  also have "\<dots> = filter (\<lambda>x. fst x \<noteq> k) (snapshot (s\<lparr>entries := entries s\<rparr>))"
    by (rule snapshot_filter [OF inv(1)])
  finally have 4: "snapshot (removeEntry k s) = filter (\<lambda>x. fst x \<noteq> k) (snapshot s)"
    by simp
  have 5: "k \<notin> fst ` set (snapshot (removeEntry k s))"
    unfolding 4 by auto
  show ?thesis using 1 2 3 4 5 by blast
qed

theorem remove_entry_witness:
  "reachable example_state \<and>
   map_has (entries example_state) ''file:///w/a.py'' \<and>
   \<not> map_has (entries example_state) ''file:///w/b.py'' \<and>
   entries (removeEntry ''file:///w/a.py'' example_state) =
     [(''file:///w/lib'', example_entry ''lib'' type_directory)] \<and>
   snapshot (removeEntry ''file:///w/a.py'' example_state) =
     [(''file:///w/lib'', ''lib'', type_directory)] \<and>
   log (removeEntry ''file:///w/a.py'' example_state) =
     log example_state @ [PostMessage [(''file:///w/lib'', ''lib'', type_directory)] None] \<and>
   removeEntry ''file:///w/b.py'' example_state = example_state"
proof -
  have h: "map_has (entries example_state) ''file:///w/a.py''"
          "\<not> map_has (entries example_state) ''file:///w/b.py''"
    by (simp_all add: map_has_def example_state_entries)
  show ?thesis
    using remove_entry [OF example_state_reachable, of "''file:///w/a.py''"]
      remove_entry [OF example_state_reachable, of "''file:///w/b.py''"] example_state_reachable h
    by (simp add: example_snapshot example_state_entries)
qed

section \<open>Packing\<close>

text \<open>
  C3. \<open>packEntries\<close> on an empty registry ends as \<open>EmptyList\<close>: whatever the host and the disk
  are, it only shows the message to add files first; the disk is the one it was given, and
  the registry is still empty.
\<close>

theorem pack_empty_list:
  assumes "entries s = []"
  shows "packEntries h d s =
           (EmptyList, emit (InformationMessage ''Add files or folders before packaging.'' []) s, d) \<and>
         entries (fst (snd (packEntries h d s))) = []"
  using assms by (simp add: packEntries_def)

theorem pack_empty_list_witness:
  "entries (resolveWebviewView constructor) = [] \<and>
   packEntries host_both example_disk (resolveWebviewView constructor) =
     (EmptyList,
      \<lparr>entries = [], view = True,
       log = [PostMessage [] None,
              InformationMessage ''Add files or folders before packaging.'' []]\<rparr>,
      example_disk)"
  using pack_empty_list [of "resolveWebviewView constructor" host_both example_disk]
  by (simp add: resolveWebviewView_def constructor_def notifyEntries_def emit_def snapshot_def
      map_values_def)

text \<open>
  C2 as the spec has it says that a pack with a project root and an entry that still exists
  succeeds. It need not: \<open>a.py\<close> was added as a file; by the time of the pack the path holds
  a directory, so the re-check passes, \<open>readFile\<close> rejects, and the \<open>catch\<close> around
  \<open>createArchive\<close> reports the failure.
\<close>

theorem pack_skips_missing_counterexample:
  "entries example_state \<noteq> [] \<and>
   workspaceFolders host_replaced = [''/w''] \<and>
   still_exists host_replaced (example_entry ''a.py'' type_file) \<and>
   fst (packEntries host_replaced replaced_disk example_state) = PackIOError"
proof -
  have c: "snd (createArchive host_replaced replaced_disk ''/w''
                  [example_entry ''a.py'' type_file]) = None"
    by (simp add: createArchive_def example_paths ensureDir_def host_replaced_def example_host_def
        example_fields readFile_def disk_at_def example_segments replaced_disk_def Let_def)
  obtain d2 where "createArchive host_replaced replaced_disk ''/w''
                     [example_entry ''a.py'' type_file] = (d2, None)"
    using c by (cases "createArchive host_replaced replaced_disk ''/w''
                         [example_entry ''a.py'' type_file]") auto
  then have p: "fst (packEntries host_replaced replaced_disk example_state) = PackIOError"
    unfolding packEntries_validated [OF example_state_nonempty example_roots(3)]
    by (simp add: example_existing Let_def)
  show ?thesis
    using example_state_nonempty example_roots(3) p
    by (simp add: still_exists_def host_replaced_def example_host_def example_entry_def)
qed

text \<open>
  C2, amended. On a registry that is not empty, with a project root, \<open>packEntries\<close> removes
  from the registry every entry whose re-check fails and, when there is one, shows one
  warning with their number. If no entry is left it ends as \<open>NothingToPack\<close> and leaves the
  disk alone. Otherwise it runs \<open>createArchive\<close> on the entries that still exist, in the order
  of the registry: it ends as \<open>Packed\<close> with the path when that call returns one (the file at
  that path then holds the header and the sections of those entries), and as \<open>PackIOError\<close>
  when a call in it rejects.
\<close>

theorem pack_skips_missing:
  assumes "reachable s" and "entries s \<noteq> []" and "workspaceFolders h = root # rest"
  shows "(let existing = filter (still_exists h) (map_values (entries s));
              missing = filter (\<lambda>e. \<not> still_exists h e) (map_values (entries s));
              r = fst (packEntries h d s); s' = fst (snd (packEntries h d s));
              d' = snd (snd (packEntries h d s))
          in entries s' = filter (\<lambda>p. still_exists h (snd p)) (entries s) \<and>
             warnings (log s') = warnings (log s) @
               (if missing = [] then []
                else [''Skipped '' @ nat_toString (length missing) @ '' missing item(s).'']) \<and>
             (existing = [] \<longrightarrow> r = NothingToPack \<and> d' = d) \<and>
             (existing \<noteq> [] \<longrightarrow>
                (d', case r of Packed p \<Rightarrow> Some p | _ \<Rightarrow> None) = createArchive h d root existing \<and>
                (r = PackIOError \<or>
                 (\<exists>p md d1. r = Packed p \<and> disk_at d' p = Some (File md) \<and>
                    ensureDir (refused h) d (path_join root ''search'') = Some d1 \<and>
                    addEntries d1 existing (header h) = Some md))))"
proof -
  let ?existing = "filter (still_exists h) (map_values (entries s))"
  let ?missing = "filter (\<lambda>e. \<not> still_exists h e) (map_values (entries s))"
  have k: "keyed (entries s)"
    using reachable_invariant [OF assms(1)] by (simp add: invariant_def)
  have w: "workspaceFolders h \<noteq> []" using assms(3) by simp
  note v = packEntries_validated [OF assms(2,3), of d]
  have 1: "entries (fst (snd (packEntries h d s))) =
           filter (\<lambda>p. still_exists h (snd p)) (entries s)"
    by (rule packEntries_entries [OF k w])
  have 2: "warnings (log (fst (snd (packEntries h d s)))) = warnings (log s) @
             (if ?missing = [] then []
              else [''Skipped '' @ nat_toString (length ?missing) @ '' missing item(s).''])"
    unfolding v using pruned_warnings [of h s]
    by (simp add: Let_def split: prod.split option.split)
  have 3: "?existing = [] \<longrightarrow>
           fst (packEntries h d s) = NothingToPack \<and> snd (snd (packEntries h d s)) = d"
    unfolding v by (simp add: Let_def)
  have 4: "(snd (snd (packEntries h d s)),
            case fst (packEntries h d s) of Packed p \<Rightarrow> Some p | _ \<Rightarrow> None) =
           createArchive h d root ?existing" if "?existing \<noteq> []"
    unfolding v using that by (simp add: Let_def split: prod.split option.split)
  have 5: "fst (packEntries h d s) = PackIOError \<or>
           (\<exists>p md d1. fst (packEntries h d s) = Packed p \<and>
              disk_at (snd (snd (packEntries h d s))) p = Some (File md) \<and>
              ensureDir (refused h) d (path_join root ''search'') = Some d1 \<and>
              addEntries d1 ?existing (header h) = Some md)"
    if ne: "?existing \<noteq> []"
  proof (cases "snd (createArchive h d root ?existing)")
    case None
    then obtain d2 where "createArchive h d root ?existing = (d2, None)"
      by (cases "createArchive h d root ?existing") auto
    then show ?thesis unfolding v using ne by (simp add: Let_def)
  next
    case (Some p)
    then obtain d2 where c: "createArchive h d root ?existing = (d2, Some p)"
      by (cases "createArchive h d root ?existing") auto
    then obtain d1 md where
      e: "ensureDir (refused h) d (path_join root ''search'') = Some d1" and
      a: "addEntries d1 ?existing (header h) = Some md" and
      wf: "writeFile (refused h) d1 p md = Some d2"
      unfolding createArchive_Some by blast
    have "disk_at d2 p = Some (File md)" by (rule writeFile_Some(2) [OF wf])
    moreover have "fst (packEntries h d s) = Packed p" "snd (snd (packEntries h d s)) = d2"
      unfolding v using ne c by (simp_all add: Let_def)
    ultimately show ?thesis using e a by blast
  qed
  show ?thesis
    unfolding Let_def using 1 2 3 4 5 by blast
qed

theorem pack_skips_missing_witness:
  "reachable example_state \<and> entries example_state \<noteq> [] \<and>
   workspaceFolders host_lib_deleted = [''/w''] \<and>
   entries (fst (snd (packEntries host_lib_deleted example_disk example_state))) =
     [(''file:///w/a.py'', example_entry ''a.py'' type_file)] \<and>
   warnings (log (fst (snd (packEntries host_lib_deleted example_disk example_state)))) =
     [''Skipped 1 missing item(s).''] \<and>
   fst (packEntries host_lib_deleted example_disk example_state) =
     Packed ''/w/search/bundle-20240105-140309.md''"
proof -
  have l: "warnings (log example_state) = []"
    by (simp add: example_state_log)
  have n: "nat_toString (Suc 0) = ''1''" by (simp add: nat_toString.simps digit_def)
  show ?thesis
    using pack_skips_missing [OF example_state_reachable example_state_nonempty example_roots(1),
        of example_disk]
      example_state_reachable example_state_nonempty example_roots(1) example_pack(1)
    by (simp add: Let_def example_existing l n)
qed

text \<open>
  C10. Past its two guards, \<open>packEntries\<close> leaves in the registry exactly the entries whose
  re-check passed, however it ends. When every entry is missing it ends as \<open>NothingToPack\<close>
  with an empty registry and the disk untouched: the prune is not undone.
\<close>

theorem prune_is_kept:
  assumes "reachable s" and "workspaceFolders h \<noteq> []"
  shows "entries (fst (snd (packEntries h d s))) =
           filter (\<lambda>p. still_exists h (snd p)) (entries s) \<and>
         (entries s \<noteq> [] \<and> list_all (\<lambda>p. \<not> still_exists h (snd p)) (entries s) \<longrightarrow>
            fst (packEntries h d s) = NothingToPack \<and>
            entries (fst (snd (packEntries h d s))) = [] \<and>
            snd (snd (packEntries h d s)) = d)"
proof -
  have k: "keyed (entries s)"
    using reachable_invariant [OF assms(1)] by (simp add: invariant_def)
  obtain root rest where w: "workspaceFolders h = root # rest"
    using assms(2) by (cases "workspaceFolders h") auto
  have 1: "entries (fst (snd (packEntries h d s))) =
           filter (\<lambda>p. still_exists h (snd p)) (entries s)"
    by (rule packEntries_entries [OF k assms(2)])
  have 2: "fst (packEntries h d s) = NothingToPack \<and>
           entries (fst (snd (packEntries h d s))) = [] \<and>
           snd (snd (packEntries h d s)) = d"
    if ne: "entries s \<noteq> []" and all: "list_all (\<lambda>p. \<not> still_exists h (snd p)) (entries s)"
  proof -
    have "filter (still_exists h) (map_values (entries s)) = []"
      using all by (auto simp: map_values_def list_all_iff filter_empty_conv)
    moreover have "filter (\<lambda>p. still_exists h (snd p)) (entries s) = []"
      using all by (auto simp: list_all_iff filter_empty_conv)
    ultimately show ?thesis
      using 1 packEntries_validated [OF ne w, of d] by (simp add: Let_def)
  qed
  show ?thesis using 1 2 by blast
qed

theorem prune_is_kept_witness:
  "reachable example_state \<and> workspaceFolders host_all_deleted \<noteq> [] \<and>
   entries example_state \<noteq> [] \<and>
   list_all (\<lambda>p. \<not> still_exists host_all_deleted (snd p)) (entries example_state) \<and>
   fst (packEntries host_all_deleted example_disk example_state) = NothingToPack \<and>
   entries (fst (snd (packEntries host_all_deleted example_disk example_state))) = [] \<and>
   snd (snd (packEntries host_all_deleted example_disk example_state)) = example_disk"
proof -
  have w: "workspaceFolders host_all_deleted \<noteq> []" by (simp add: example_roots)
  show ?thesis
    using prune_is_kept [OF example_state_reachable w, of example_disk] example_state_reachable w
      example_state_nonempty example_existing(5)
    by blast
qed

section \<open>The document\<close>

text \<open>
  C4 as the spec has it says that the tag of the fence is the extension in lowercase. The
  provider never lowercases: \<open>Foo.JS\<close> is fenced as \<open>JS\<close>, where the spec's tag is \<open>js\<close>.
\<close>

theorem tag_as_spelt_counterexample:
  "addEntries js_disk [example_entry ''Foo.JS'' type_file] [] =
     Some (fileSection ''Foo.JS'' ''JS'' ''x'') \<and>
   spec_language_tag ''Foo.JS'' = ''js'' \<and>
   ext_of ''Foo.JS'' \<noteq> spec_language_tag ''Foo.JS''"
proof -
  have e: "ext_of ''Foo.JS'' = ''JS''"
    by (simp add: ext_of_def extname_def last_portion_def)
  have s: "spec_language_tag ''Foo.JS'' = ''js''"
    by (simp add: spec_language_tag_def extname_def last_portion_def lower_char_def)
  have "addEntries js_disk [example_entry ''Foo.JS'' type_file] [] =
          Some (fileSection ''Foo.JS'' ''JS'' ''x'')"
    by (simp add: example_fields example_reads e)
  then show ?thesis by (simp add: e s)
qed

text \<open>
  C4, amended. The tag of the fence of a file is \<open>ext_of\<close> of its name, in both places a file
  is written: for a file entry of the registry the name is its relative path, for a file
  found in a directory it is the listed name. Let the name end in a leaf without a separator,
  after nothing or after a separator. If the leaf is a base that is not empty, a dot, and an
  extension without a dot that is not empty, the tag is that extension as it is spelt, with
  no change of case. In every other case the tag is \<open>txt\<close>: the leaf has no dot
  (\<open>Makefile\<close>), its only dot is its first character (\<open>.bashrc\<close>), or it ends in a dot. A leaf
  is of one kind or the other.
\<close>

theorem tag_as_spelt:
  "(type e \<noteq> type_directory \<and> readFile d (fsPath (uri e)) = Some content \<longrightarrow>
      addEntries d (e # es) md =
        addEntries d es (md @ fileSection (relativePath e) (ext_of (relativePath e)) content)) \<and>
   addItems ((item, File content) # rest) rel md =
     addItems rest rel (md @ fileSection (path_join rel item) (ext_of item) content) \<and>
   (base \<noteq> [] \<and> last base \<noteq> CHR ''/'' \<and> ext \<noteq> [] \<and> CHR ''.'' \<notin> set ext \<and> CHR ''/'' \<notin> set ext \<longrightarrow>
      ext_of (base @ CHR ''.'' # ext) = ext) \<and>
   (CHR ''.'' \<notin> set (last_portion name) \<longrightarrow> ext_of name = ''txt'') \<and>
   (leaf \<noteq> [] \<and> CHR ''/'' \<notin> set leaf \<and> (dir = [] \<or> last dir = CHR ''/'') \<and>
    (last leaf = CHR ''.'' \<or> CHR ''.'' \<notin> set (tl leaf)) \<longrightarrow>
      ext_of (dir @ leaf) = ''txt'') \<and>
   (leaf \<noteq> [] \<and> last leaf \<noteq> CHR ''.'' \<and> CHR ''.'' \<in> set (tl leaf) \<longrightarrow>
      (\<exists>b x. leaf = b @ CHR ''.'' # x \<and> b \<noteq> [] \<and> x \<noteq> [] \<and> CHR ''.'' \<notin> set x))"
proof -
  have 5: "ext_of (dir @ leaf) = ''txt''"
    if "leaf \<noteq> []" "CHR ''/'' \<notin> set leaf" "dir = [] \<or> last dir = CHR ''/''"
       "last leaf = CHR ''.'' \<or> CHR ''.'' \<notin> set (tl leaf)"
    using last_portion_leaf [OF that(1,2,3)] that(4) by (intro extname_none [of _ leaf]) auto
  have 6: "\<exists>b x. leaf = b @ CHR ''.'' # x \<and> b \<noteq> [] \<and> x \<noteq> [] \<and> CHR ''.'' \<notin> set x"
    if "leaf \<noteq> []" "last leaf \<noteq> CHR ''.''" "CHR ''.'' \<in> set (tl leaf)"
    using that by (rule leaf_split)
  show ?thesis
    using 5 6 by (auto simp: ext_of_extension ext_of_no_dot)
qed

theorem tag_as_spelt_witness:
  "type (example_entry ''Foo.JS'' type_file) \<noteq> type_directory \<and>
   readFile js_disk (fsPath (uri (example_entry ''Foo.JS'' type_file))) = Some ''x'' \<and>
   CHR ''.'' \<notin> set (last_portion ''Makefile'') \<and>
   addEntries js_disk [example_entry ''Foo.JS'' type_file] [] =
     Some (fileSection ''Foo.JS'' (ext_of ''Foo.JS'') ''x'') \<and>
   ext_of ''Foo.JS'' = ''JS'' \<and> ext_of ''a.py'' = ''py'' \<and> ext_of ''Makefile'' = ''txt'' \<and>
   ext_of ''.bashrc'' = ''txt'' \<and> ext_of ''lib/.env'' = ''txt'' \<and> ext_of ''notes.'' = ''txt''"
proof -
  have r: "readFile js_disk (fsPath (uri (example_entry ''Foo.JS'' type_file))) = Some ''x''"
    "type (example_entry ''Foo.JS'' type_file) \<noteq> type_directory"
    "relativePath (example_entry ''Foo.JS'' type_file) = ''Foo.JS''"
    by (simp_all add: example_fields example_reads)
  have p: "last_portion ''Makefile'' = ''Makefile''"
    by (simp add: last_portion_def)
  have 1: "ext_of ''.bashrc'' = ''txt''"
    using tag_as_spelt [where dir = "[]" and leaf = "''.bashrc''"] by simp
  have 2: "ext_of ''lib/.env'' = ''txt''"
    using tag_as_spelt [where dir = "''lib/''" and leaf = "''.env''"] by simp
  have 3: "ext_of ''notes.'' = ''txt''"
    using tag_as_spelt [where dir = "[]" and leaf = "''notes.''"] by simp
  show ?thesis
    using tag_as_spelt [where e = "example_entry ''Foo.JS'' type_file" and d = js_disk and
        content = "''x''" and es = "[]" and md = "[]" and base = "''Foo''" and ext = "''JS''" and
        name = "''Makefile''"]
      tag_as_spelt [where base = "''a''" and ext = "''py''"] r p 1 2 3
    by simp
qed

text \<open>
  C5 as the spec has it draws the heading of a section as \<open>## File:\<close> and the path between
  backticks. The provider writes another word there, the two characters U+6587 U+4EF6.
\<close>

theorem file_section_counterexample:
  "addEntries example_disk [example_entry ''a.py'' type_file] [] =
     Some (fileSection ''a.py'' ''py'' ''print(1)'') \<and>
   fileSection ''a.py'' ''py'' ''print(1)'' \<noteq> template ''File'' ''a.py'' ''py'' ''print(1)''"
proof -
  have "addEntries example_disk [example_entry ''a.py'' type_file] [] =
          Some (fileSection ''a.py'' ''py'' ''print(1)'')"
    by (simp add: example_fields example_reads example_ext)
  moreover have "fileSection ''a.py'' ''py'' ''print(1)'' \<noteq>
                 template ''File'' ''a.py'' ''py'' ''print(1)''"
    by (simp add: fileSection_template template_def label_def)
  ultimately show ?thesis by simp
qed

text \<open>
  C5, amended. The section of a file is the template of the spec with the provider's own
  word in the heading: the heading line with the path between backticks, an empty line, the
  fence with the tag, the text of the file as it was read, the closing fence, an empty line,
  the rule and an empty line. It is so for a file entry of the registry and for a file found
  in a directory. For \<open>a.py\<close> holding \<open>print(1)\<close> the section has \<open>a.py\<close> in its heading, the
  fence tagged \<open>py\<close>, and the text \<open>print(1)\<close>.
\<close>

theorem file_section:
  "(type e \<noteq> type_directory \<and> readFile d (fsPath (uri e)) = Some content \<longrightarrow>
      addEntries d (e # es) md =
        addEntries d es (md @ template label (relativePath e) (ext_of (relativePath e)) content)) \<and>
   addItems ((item, File content) # rest) rel md =
     addItems rest rel (md @ template label (path_join rel item) (ext_of item) content) \<and>
   addEntries example_disk [example_entry ''a.py'' type_file] md =
     Some (md @ ''## '' @ label @ '': '' @ [backtick] @ ''a.py'' @ [backtick, nl, nl] @
           [backtick, backtick, backtick] @ ''py'' @ [nl] @ ''print(1)'' @ [nl] @
           [backtick, backtick, backtick, nl, nl] @ ''---'' @ [nl, nl])"
proof -
  have 1: "addEntries d (e # es) md =
             addEntries d es (md @ template label (relativePath e) (ext_of (relativePath e)) content)"
    if "type e \<noteq> type_directory" "readFile d (fsPath (uri e)) = Some content"
    using that by (simp add: fileSection_template)
  have 2: "addItems ((item, File content) # rest) rel md =
             addItems rest rel (md @ template label (path_join rel item) (ext_of item) content)"
    by (simp add: fileSection_template)
  have t: "template label ''a.py'' ''py'' ''print(1)'' =
             ''## '' @ label @ '': '' @ [backtick] @ ''a.py'' @ [backtick, nl, nl] @
             [backtick, backtick, backtick] @ ''py'' @ [nl] @ ''print(1)'' @ [nl] @
             [backtick, backtick, backtick, nl, nl] @ ''---'' @ [nl, nl]"
    by (simp add: template_def eval_nat_numeral)
  have "addEntries example_disk [example_entry ''a.py'' type_file] md =
          Some (md @ template label ''a.py'' ''py'' ''print(1)'')"
    by (simp add: example_fields example_reads example_ext fileSection_template)
  then have 3: "addEntries example_disk [example_entry ''a.py'' type_file] md =
     Some (md @ ''## '' @ label @ '': '' @ [backtick] @ ''a.py'' @ [backtick, nl, nl] @
           [backtick, backtick, backtick] @ ''py'' @ [nl] @ ''print(1)'' @ [nl] @
           [backtick, backtick, backtick, nl, nl] @ ''---'' @ [nl, nl])"
    unfolding t .
  show ?thesis using 1 2 3 by blast
qed

theorem file_section_witness:
  "type (example_entry ''a.py'' type_file) \<noteq> type_directory \<and>
   readFile example_disk (fsPath (uri (example_entry ''a.py'' type_file))) = Some ''print(1)'' \<and>
   addEntries example_disk [example_entry ''a.py'' type_file] (header host_both) =
     Some (header host_both @ template label ''a.py'' ''py'' ''print(1)'')"
proof -
  have r: "readFile example_disk (fsPath (uri (example_entry ''a.py'' type_file))) = Some ''print(1)''"
    "type (example_entry ''a.py'' type_file) \<noteq> type_directory"
    "relativePath (example_entry ''a.py'' type_file) = ''a.py''"
    by (simp_all add: example_fields example_reads)
  show ?thesis
    using file_section [where e = "example_entry ''a.py'' type_file" and d = example_disk and
        content = "''print(1)''" and es = "[]" and md = "header host_both"] r
    by (simp add: example_ext)
qed




text \<open>
  C7. When \<open>packEntries\<close> ends as \<open>Packed\<close>, the path it returns is \<open>search\<close> joined onto the
  root and the name of the bundle joined onto that, the name being \<open>bundle-\<close>, the timestamp
  of the moment and \<open>.md\<close>. The timestamp is the year in decimal, then month, day, a hyphen,
  hour, minute and second, each of these five in two digits; for a year of four digits it
  is \<open>YYYYMMDD-HHmmss\<close>. The file at the returned path exists afterwards. For a root that is
  an absolute path of proper names the path is the root, \<open>/search/\<close> and the name; the
  directory \<open>search\<close> under the root is a directory afterwards and lists the bundle: its
  listing is the one it had, or the empty one when it was not there, with the bundle put
  in; ensuring it once more changes nothing.
\<close>

theorem output_path:
  assumes "fst (packEntries h d s) = Packed p" and "workspaceFolders h = root # rest"
  shows "(let d' = snd (snd (packEntries h d s));
              name = ''bundle-'' @ formatTimestamp (now h) @ ''.md''
          in p = path_join (path_join root ''search'') name \<and>
             (clock (now h) \<longrightarrow>
                formatTimestamp (now h) =
                  int_toString (getFullYear (now h)) @ two_digits (getMonth (now h) + 1) @
                  two_digits (getDate (now h)) @ ''-'' @ two_digits (getHours (now h)) @
                  two_digits (getMinutes (now h)) @ two_digits (getSeconds (now h))) \<and>
             (calendar (now h) \<longrightarrow> formatTimestamp (now h) = YYYYMMDD_HHmmss (now h)) \<and>
             (\<exists>md. disk_at d' p = Some (File md) \<and>
                (root = absolute_path segs \<and> segs \<noteq> [] \<and> list_all proper_name segs \<longrightarrow>
                   p = root @ ''/search/'' @ name \<and>
                   disk_at d' (root @ ''/search'') =
                     Some (Directory
                       (put (case disk_at d (root @ ''/search'') of
                               Some (Directory old) \<Rightarrow> old | _ \<Rightarrow> [])
                          name (File md))) \<and>
                   ensureDir (refused h) d' (root @ ''/search'') = Some d')))"
proof -
  let ?d' = "snd (snd (packEntries h d s))"
  let ?name = "''bundle-'' @ formatTimestamp (now h) @ ''.md''"
  obtain d1 md where
    e: "ensureDir (refused h) d (path_join root ''search'') = Some d1" and
    p: "p = path_join (path_join root ''search'') ?name" and
    w: "writeFile (refused h) d1 p md = Some ?d'"
    using packEntries_Packed [OF assms(1,2)] unfolding createArchive_Some by blast
  have 2: "clock (now h) \<longrightarrow>
             formatTimestamp (now h) =
               int_toString (getFullYear (now h)) @ two_digits (getMonth (now h) + 1) @
               two_digits (getDate (now h)) @ ''-'' @ two_digits (getHours (now h)) @
               two_digits (getMinutes (now h)) @ two_digits (getSeconds (now h))"
    using formatTimestamp_clock by blast
  have 3: "calendar (now h) \<longrightarrow> formatTimestamp (now h) = YYYYMMDD_HHmmss (now h)"
    by (simp add: formatTimestamp_calendar)
  have 4: "disk_at ?d' p = Some (File md)" by (rule writeFile_Some(2) [OF w])
  have 5: "p = root @ ''/search/'' @ ?name \<and>
           disk_at ?d' (root @ ''/search'') =
             Some (Directory
               (put (case disk_at d (root @ ''/search'') of
                       Some (Directory old) \<Rightarrow> old | _ \<Rightarrow> [])
                  ?name (File md))) \<and>
           ensureDir (refused h) ?d' (root @ ''/search'') = Some ?d'"
    if r: "root = absolute_path segs" "segs \<noteq> []" "list_all proper_name segs"
  proof -
    let ?dir = "root @ ''/search''"
    note ap = archive_path(1) [OF r(3,2)] archive_path(2) [OF r(3,2), of "now h"]
    have pe: "p = root @ ''/search/'' @ ?name" using p ap(2) r(1) by simp
    have ds: "?dir = absolute_path (segs @ [''search''])"
      by (simp add: r(1) absolute_path_def)
    have ps: "p = absolute_path (segs @ [''search''] @ [?name])"
      unfolding pe by (simp add: r(1) absolute_path_def)
    have sd: "segments ?dir = segs @ [''search'']"
      unfolding ds using r(3) search_proper by (intro segments_absolute) simp
    have sp: "segments p = (segs @ [''search'']) @ [?name]"
      unfolding ps using r(3) search_proper bundle_proper [of "now h"]
      by (subst segments_absolute) simp_all
    have e': "ensureDir (refused h) d ?dir = Some d1" using e ap(1) r(1) by simp
    have "store d1 ((segs @ [''search'']) @ [?name]) (File md) = Some ?d'"
      using writeFile_Some(1) [OF w] sp by simp
    from store_parent [OF this] obtain items where
      i: "lookup d1 (segs @ [''search'']) = Some (Directory items)"
         "lookup ?d' (segs @ [''search'']) = Some (Directory (put items ?name (File md)))"
      by blast
    have b: "disk_at d1 ?dir = Some (Directory items)"
      using i(1) by (simp add: disk_at_def sd)
    have "items = (case disk_at d ?dir of Some (Directory old) \<Rightarrow> old | _ \<Rightarrow> [])"
      using ensureDir_Some(1) [OF e'] b by (auto split: option.splits)
    then have a: "disk_at ?d' ?dir =
        Some (Directory (put (case disk_at d ?dir of Some (Directory old) \<Rightarrow> old | _ \<Rightarrow> [])
                ?name (File md)))"
      using i(2) by (simp add: disk_at_def sd)
    have "ensureDir (refused h) ?d' ?dir = Some ?d'"
      using a by (rule ensureDir_again)
    with pe a show ?thesis by simp
  qed
  show ?thesis unfolding Let_def using p 2 3 4 5 by blast
qed

theorem output_path_witness:
  "fst (packEntries host_lib_deleted example_disk example_state) =
     Packed ''/w/search/bundle-20240105-140309.md'' \<and>
   workspaceFolders host_lib_deleted = [absolute_path [''w'']] \<and>
   list_all proper_name [''w''] \<and>
   clock (now host_lib_deleted) \<and> calendar (now host_lib_deleted) \<and>
   formatTimestamp (now host_lib_deleted) = ''20240105-140309'' \<and>
   YYYYMMDD_HHmmss (now host_lib_deleted) = ''20240105-140309'' \<and>
   disk_at example_disk ''/w/search'' = None \<and>
   disk_at (snd (snd (packEntries host_lib_deleted example_disk example_state))) ''/w/search'' =
     Some (Directory
       [(''bundle-20240105-140309.md'',
         File (header host_lib_deleted @ fileSection ''a.py'' ''py'' ''print(1)''))]) \<and>
   ensureDir (refused host_lib_deleted)
     (snd (snd (packEntries host_lib_deleted example_disk example_state))) ''/w/search'' =
     Some (snd (snd (packEntries host_lib_deleted example_disk example_state)))"
proof -
  have a: "absolute_path [''w''] = ''/w''" by (simp add: absolute_path_def)
  have w: "workspaceFolders host_lib_deleted = absolute_path [''w''] # []"
    by (simp add: example_roots a)
  have n: "now host_lib_deleted = example_date"
    by (simp add: host_lib_deleted_def example_host_def)
  have c: "calendar example_date" "clock example_date"
    by (simp_all add: calendar_def clock_def example_date_def)
  have p: "list_all proper_name [''w'']" by (simp add: proper_name_def)
  have f: "disk_at (snd (snd (packEntries host_lib_deleted example_disk example_state)))
             ''/w/search/bundle-20240105-140309.md'' =
           Some (File (header host_lib_deleted @ fileSection ''a.py'' ''py'' ''print(1)''))"
    by (simp add: example_pack(2) disk_at_def example_segments)
  show ?thesis
    using output_path [OF example_pack(1) w, where segs = "[''w'']"] example_pack(1) w c
      example_reads(4) p f
    by (auto simp: Let_def a n example_timestamp)
qed

end
